theory Spec2Isabelle
  imports Complex_Main
begin

section \<open>Radial Hartree potentials of numerical atomic orbitals\<close>

text \<open>
  A shallow embedding of \<^verbatim>\<open>pyscf/nao/m_ao_log_hartree.py\<close>, in two layers.

  The value model, which comes first, has arrays as values: a one-dimensional numpy array is
  a list, a two-dimensional one a list of rows, a Python list of arrays a list again.
  \<^verbatim>\<open>copy.deepcopy\<close> is then the identity, and every in-place write returns the new
  container. Index errors and shape errors of numpy are values of the type \<open>error\<close>.

  The store model, in the section on the store, gives every array an address, so that it
  can be said which arrays a call writes; it is proved to return what the value model
  returns when the arrays of the input are different objects.

  Numbers: in both models a numpy \<^verbatim>\<open>float64\<close> is idealised as a \<^typ>\<open>real\<close>, so rounding,
  overflow, \<^verbatim>\<open>inf\<close> and \<^verbatim>\<open>nan\<close> are outside them; wherever the source divides or takes a
  logarithm, the theorems carry the hypothesis that keeps the idealisation sound (a positive
  radial grid, a positive reciprocal grid). Angular momenta are numpy integers, here
  \<^typ>\<open>int\<close>, and \<^verbatim>\<open>x**am\<close> is \<^const>\<open>power_int\<close>. The term that the innermost loop adds
  is modelled a second time, in binary64 arithmetic with rounding, underflow and infinities,
  in the section before the auxiliary facts.
\<close>

subsection \<open>Errors and the numpy operations the module uses\<close>

datatype error = IndexError | ValueError | TypeError | RuntimeError string

definition bind_err :: "error + 'a \<Rightarrow> ('a \<Rightarrow> error + 'b) \<Rightarrow> error + 'b" where
  "bind_err m f = (case m of Inl e \<Rightarrow> Inl e | Inr x \<Rightarrow> f x)"

text \<open>\<^verbatim>\<open>for x in xs: s = body(x, s)\<close>, stopping at the first exception.\<close>

fun for_each :: "'a list \<Rightarrow> ('a \<Rightarrow> 's \<Rightarrow> error + 's) \<Rightarrow> 's \<Rightarrow> error + 's" where
  "for_each [] body s = Inr s"
| "for_each (x # xs) body s = bind_err (body x s) (for_each xs body)"

text \<open>\<^verbatim>\<open>enumerate(xs)\<close> and \<^verbatim>\<open>range(n)\<close>.\<close>

definition enumerate_list :: "'a list \<Rightarrow> (nat \<times> 'a) list" where
  "enumerate_list xs = zip [0..<length xs] xs"

definition py_range :: "nat \<Rightarrow> nat list" where
  "py_range n = [0..<n]"

text \<open>\<^verbatim>\<open>xs[i]\<close> with \<open>i\<close> a non-negative index, and \<^verbatim>\<open>xs[-1]\<close>.\<close>

definition np_get :: "'a list \<Rightarrow> nat \<Rightarrow> error + 'a" where
  "np_get xs i = (if i < length xs then Inr (xs ! i) else Inl IndexError)"

definition np_last :: "'a list \<Rightarrow> error + 'a" where
  "np_last xs = (if xs = [] then Inl IndexError else Inr (last xs))"

text \<open>
  An elementwise binary operation of two one-dimensional arrays, with numpy's
  broadcasting: equal lengths, or one of the two of length one; anything else raises
  \<^verbatim>\<open>ValueError\<close>.
\<close>

definition np_broadcast ::
  "(real \<Rightarrow> real \<Rightarrow> real) \<Rightarrow> real list \<Rightarrow> real list \<Rightarrow> error + real list" where
  "np_broadcast f xs ys =
     (if length xs = length ys then Inr (map2 f xs ys)
      else if length xs = 1 then Inr (map (f (hd xs)) ys)
      else if length ys = 1 then Inr (map (\<lambda>x. f x (hd ys)) xs)
      else Inl ValueError)"

text \<open>
  \<^verbatim>\<open>a[sp][mu,:] = v\<close>: the species \<open>sp\<close> and the row \<open>mu\<close> must exist, and \<open>v\<close> must have
  the length of the row or length one (it is then repeated). The shape of \<open>a\<close> never changes.
\<close>

definition set_row :: "real list list list \<Rightarrow> nat \<Rightarrow> nat \<Rightarrow> real list \<Rightarrow> error + real list list list" where
  "set_row a sp mu v =
     bind_err (np_get a sp) (\<lambda>m.
     bind_err (np_get m mu) (\<lambda>row.
       if length v = length row then Inr (a[sp := m[mu := v]])
       else if length v = 1 then Inr (a[sp := m[mu := replicate (length row) (hd v)]])
       else Inl ValueError))"

text \<open>\<^verbatim>\<open>a[sp][mu,:]\<close> read.\<close>

definition get_row :: "real list list list \<Rightarrow> nat \<Rightarrow> nat \<Rightarrow> error + real list" where
  "get_row a sp mu = bind_err (np_get a sp) (\<lambda>m. np_get m mu)"

subsection \<open>The orbital container\<close>

text \<open>
  The class \<^verbatim>\<open>ao_log\<close> is defined in another module; these are the attributes that
  \<^verbatim>\<open>m_ao_log_hartree.py\<close> reads and writes, with the types its uses give them:
  \<open>psi_log\<close>, \<open>psi_log_rl\<close> are lists (one entry per species) of two-dimensional arrays
  (multiplet \<times> radial point), \<open>sp_mu2j\<close> and \<open>sp_mu2rcut\<close> lists of one-dimensional
  arrays, \<open>sp2rcut\<close> a one-dimensional array.
\<close>

record ao_log =
  nr :: nat
  nspecies :: nat
  rr :: "real list"
  pp :: "real list"
  jmx :: int
  sp2nmult :: "int list"
  sp_mu2j :: "int list list"
  psi_log :: "real list list list"
  psi_log_rl :: "real list list list"
  sp_mu2rcut :: "real list list"
  sp2rcut :: "real list"

subsection \<open>The cutoff reset shared by the three solvers\<close>

text \<open>
  \<^verbatim>\<open>for sp in range(ao.nspecies): ao_pot.sp_mu2rcut[sp].fill(ao.rr[-1])\<close> and
  \<^verbatim>\<open>ao_pot.sp2rcut.fill(ao.rr[-1])\<close>.
\<close>

definition fill_sp_mu2rcut :: "ao_log \<Rightarrow> nat \<Rightarrow> ao_log \<Rightarrow> error + ao_log" where
  "fill_sp_mu2rcut ao sp ao_pot =
     bind_err (np_get (sp_mu2rcut ao_pot) sp) (\<lambda>mu2rcut.
     bind_err (np_last (rr ao)) (\<lambda>rmax.
       Inr (ao_pot\<lparr>sp_mu2rcut := (sp_mu2rcut ao_pot)[sp := replicate (length mu2rcut) rmax]\<rparr>)))"

definition fill_rcut :: "ao_log \<Rightarrow> ao_log \<Rightarrow> error + ao_log" where
  "fill_rcut ao ao_pot =
     bind_err (for_each (py_range (nspecies ao)) (fill_sp_mu2rcut ao) ao_pot) (\<lambda>ao_pot.
     bind_err (np_last (rr ao)) (\<lambda>rmax.
       Inr (ao_pot\<lparr>sp2rcut := replicate (length (sp2rcut ao_pot)) rmax\<rparr>)))"

subsection \<open>The direct double quadrature, \<^verbatim>\<open>ao_log_hartree_lap\<close>\<close>

text \<open>One pass of the innermost loop body: the term added to \<^verbatim>\<open>vff[ir]\<close> for \<open>irp\<close>.\<close>

definition lap_term :: "real list \<Rightarrow> real list \<Rightarrow> int \<Rightarrow> nat \<Rightarrow> nat \<Rightarrow> error + real" where
  "lap_term rs ffrr3 am ir irp =
     bind_err (np_get rs ir) (\<lambda>r.
     bind_err (np_get rs irp) (\<lambda>rp.
     let rrl = power_int (min r rp) am;
         rrg = power_int (max r rp) (am + 1)
     in bind_err (np_get ffrr3 irp) (\<lambda>g. Inr (rrl / rrg * g))))"

definition lap_irp_body :: "real list \<Rightarrow> real list \<Rightarrow> int \<Rightarrow> nat \<Rightarrow> nat \<Rightarrow> real list \<Rightarrow> error + real list" where
  "lap_irp_body rs ffrr3 am ir irp vff =
     bind_err (lap_term rs ffrr3 am ir irp) (\<lambda>t. Inr (vff[ir := vff ! ir + t]))"

definition lap_ir_body :: "nat \<Rightarrow> real list \<Rightarrow> real list \<Rightarrow> int \<Rightarrow> nat \<Rightarrow> real list \<Rightarrow> error + real list" where
  "lap_ir_body n rs ffrr3 am ir vff = for_each (py_range n) (lap_irp_body rs ffrr3 am ir) vff"

text \<open>\<^verbatim>\<open>vff.fill(0.0)\<close> on the buffer of length \<open>ao.nr\<close>, then the double loop.\<close>

definition lap_vff :: "nat \<Rightarrow> real list \<Rightarrow> real list \<Rightarrow> int \<Rightarrow> error + real list" where
  "lap_vff n rs ffrr3 am = for_each (py_range n) (lap_ir_body n rs ffrr3 am) (replicate n 0)"

text \<open>
  \<^verbatim>\<open>ao_pot.psi_log_rl[sp][mu,:] = ao_pot.psi_log[sp][mu,:]/(ao.rr**am)\<close>, the line that
  closes the loop body of each of the three solvers. The right-hand side is evaluated
  first, then the target is indexed.
\<close>

definition store_rescaled :: "ao_log \<Rightarrow> nat \<Rightarrow> nat \<Rightarrow> int \<Rightarrow> ao_log \<Rightarrow> error + ao_log" where
  "store_rescaled ao sp mu am ao_pot =
     bind_err (get_row (psi_log ao_pot) sp mu) (\<lambda>row.
     bind_err (np_broadcast (/) row (map (\<lambda>r. power_int r am) (rr ao))) (\<lambda>q.
     bind_err (set_row (psi_log_rl ao_pot) sp mu q) (\<lambda>rl.
       Inr (ao_pot\<lparr>psi_log_rl := rl\<rparr>))))"

text \<open>The body of the loop over the multiplets of one species.\<close>

definition lap_mult :: "ao_log \<Rightarrow> real \<Rightarrow> nat \<Rightarrow> nat \<times> real list \<times> int \<Rightarrow> ao_log \<Rightarrow> error + ao_log" where
  "lap_mult ao dr sp = (\<lambda>(mu, ff, am) ao_pot.
     bind_err (np_broadcast (*) ff (map (\<lambda>r. r ^ 3) (rr ao))) (\<lambda>ffrr3.
     bind_err (lap_vff (nr ao) (rr ao) ffrr3 am) (\<lambda>vff.
     bind_err (set_row (psi_log ao_pot) sp mu
                 (map (\<lambda>v. (4 * pi * dr) / (2 * of_int am + 1) * v) vff)) (\<lambda>psi.
       store_rescaled ao sp mu am (ao_pot\<lparr>psi_log := psi\<rparr>)))))"

text \<open>The body of the loop over the species.\<close>

definition lap_species :: "ao_log \<Rightarrow> real \<Rightarrow> nat \<times> real list list \<Rightarrow> ao_log \<Rightarrow> error + ao_log" where
  "lap_species ao dr = (\<lambda>(sp, mu2ff) ao_pot.
     bind_err (np_get (sp_mu2j ao) sp) (\<lambda>mu2j.
       for_each (enumerate_list (zip mu2ff mu2j)) (lap_mult ao dr sp) ao_pot))"

text \<open>
  \<^verbatim>\<open>copy.deepcopy(ao)\<close> is the value \<open>ao\<close> itself here, where arrays are values; the
  store model at the end of the definitions gives the copy its own addresses.
\<close>

definition ao_log_hartree_lap :: "ao_log \<Rightarrow> error + ao_log" where
  "ao_log_hartree_lap ao =
     (let ao_pot = ao in
      bind_err (np_get (rr ao) 1) (\<lambda>r1.
      bind_err (np_get (rr ao) 0) (\<lambda>r0.
      let dr = ln (r1 / r0) in
      bind_err (for_each (enumerate_list (psi_log ao)) (lap_species ao dr) ao_pot) (\<lambda>ao_pot.
        fill_rcut ao ao_pot))))"

subsection \<open>The transform solver, \<^verbatim>\<open>ao_log_hartree_sbt\<close>\<close>

text \<open>
  The class \<^verbatim>\<open>sbt_c\<close> lives in \<^verbatim>\<open>pyscf.nao.m_sbt\<close>, which is not part of this module:
  its constructor and its method \<^verbatim>\<open>sbt(ff, am, direction)\<close> are parameters of the model.
  An engine is the function that its \<^verbatim>\<open>sbt\<close> method computes.
\<close>

type_synonym sbt_engine = "real list \<Rightarrow> int \<Rightarrow> int \<Rightarrow> error + real list"

type_synonym sbt_constructor = "real list \<Rightarrow> real list \<Rightarrow> int \<Rightarrow> error + sbt_engine"

definition sbt_mult :: "sbt_engine \<Rightarrow> ao_log \<Rightarrow> nat \<Rightarrow> nat \<times> real list \<times> int \<Rightarrow> ao_log \<Rightarrow> error + ao_log" where
  "sbt_mult sbt ao sp = (\<lambda>(mu, ff, am) ao_pot.
     bind_err (sbt ff am 1) (\<lambda>fp.
     bind_err (np_broadcast (/) fp (map (\<lambda>p. p ^ 2) (pp ao))) (\<lambda>gp.
     bind_err (sbt gp am (- 1)) (\<lambda>v.
     bind_err (set_row (psi_log ao_pot) sp mu (map (\<lambda>x. (4 * pi) * x) v)) (\<lambda>psi.
       store_rescaled ao sp mu am (ao_pot\<lparr>psi_log := psi\<rparr>))))))"

definition sbt_species :: "sbt_engine \<Rightarrow> ao_log \<Rightarrow> nat \<times> real list list \<Rightarrow> ao_log \<Rightarrow> error + ao_log" where
  "sbt_species sbt ao = (\<lambda>(sp, mu2ff) ao_pot.
     bind_err (np_get (sp_mu2j ao) sp) (\<lambda>mu2j.
       for_each (enumerate_list (zip mu2ff mu2j)) (sbt_mult sbt ao sp) ao_pot))"

definition ao_log_hartree_sbt :: "sbt_constructor \<Rightarrow> ao_log \<Rightarrow> error + ao_log" where
  "ao_log_hartree_sbt sbt_c ao =
     bind_err (sbt_c (rr ao) (pp ao) (jmx ao)) (\<lambda>sbt.
     let ao_pot = ao in
     bind_err (for_each (enumerate_list (psi_log ao)) (sbt_species sbt ao) ao_pot) (\<lambda>ao_pot.
       fill_rcut ao ao_pot))"

subsection \<open>The library-backed solver, \<^verbatim>\<open>ao_log_hartree_lap_libnao\<close>\<close>

text \<open>
  Two things it calls are not part of this module and are parameters: the copying constructor
  \<^verbatim>\<open>ao_log(ao_log=ao)\<close>, and the compiled routine \<^verbatim>\<open>libnao.ao_hartree_lap\<close>, which
  receives \<open>rr\<close>, the number of multiplets, the orbitals, \<open>nr\<close>, the angular momenta and the
  buffer \<open>ff_pot\<close>, and whose effect is the new content of that buffer.
  \<^verbatim>\<open>np.require\<close> changes no value.
\<close>

type_synonym ao_log_constructor = "ao_log \<Rightarrow> error + ao_log"

type_synonym libnao_routine =
  "real list \<Rightarrow> int \<Rightarrow> real list list \<Rightarrow> nat \<Rightarrow> int list \<Rightarrow> real list list \<Rightarrow> error + real list list"

definition libnao_species :: "libnao_routine \<Rightarrow> ao_log \<Rightarrow> nat \<Rightarrow> ao_log \<Rightarrow> error + ao_log" where
  "libnao_species ao_hartree_lap ao sp ao_pot =
     bind_err (np_get (sp_mu2j ao) sp) (\<lambda>mu2j.
     bind_err (np_get (psi_log ao) sp) (\<lambda>ff_rad.
     bind_err (np_get (psi_log ao_pot) sp) (\<lambda>ff_pot.
     bind_err (np_get (sp2nmult ao) sp) (\<lambda>nmult.
     bind_err (ao_hartree_lap (rr ao) nmult ff_rad (nr ao) mu2j ff_pot) (\<lambda>ff_pot.
     let ao_pot = ao_pot\<lparr>psi_log := (psi_log ao_pot)[sp := ff_pot]\<rparr> in
     bind_err (np_get (sp_mu2j ao) sp) (\<lambda>mu2j.
       for_each (enumerate_list mu2j) (\<lambda>(mu, am). store_rescaled ao sp mu am) ao_pot))))))"

definition ao_log_hartree_lap_libnao ::
  "ao_log_constructor \<Rightarrow> libnao_routine \<Rightarrow> ao_log \<Rightarrow> error + ao_log" where
  "ao_log_hartree_lap_libnao ao_log_new ao_hartree_lap ao =
     bind_err (ao_log_new ao) (\<lambda>ao_pot.
     bind_err (for_each (py_range (nspecies ao)) (libnao_species ao_hartree_lap ao) ao_pot) (\<lambda>ao_pot.
       fill_rcut ao ao_pot))"

subsection \<open>The dispatcher, \<^verbatim>\<open>ao_log_hartree\<close>\<close>

text \<open>
  \<^verbatim>\<open>str.upper\<close> on a method name of ASCII characters: the letters \<open>a\<close> to \<open>z\<close> go to
  \<open>A\<close> to \<open>Z\<close>, every other character stays.
\<close>

definition char_upper :: "char \<Rightarrow> char" where
  "char_upper c =
     (case map_of (zip ''abcdefghijklmnopqrstuvwxyz'' ''ABCDEFGHIJKLMNOPQRSTUVWXYZ'') c of
        Some C \<Rightarrow> C
      | None \<Rightarrow> c)"

definition upper :: "string \<Rightarrow> string" where
  "upper s = map char_upper s"

text \<open>
  The result carries the list of the solvers that were called, so that a statement can tell
  a solver that was not called from one that was called and failed.
\<close>

datatype solver = Lap_libnao | Sbt

definition ao_log_hartree ::
  "ao_log_constructor \<Rightarrow> libnao_routine \<Rightarrow> sbt_constructor \<Rightarrow> ao_log \<Rightarrow> string
     \<Rightarrow> solver list \<times> (error + ao_log)" where
  "ao_log_hartree ao_log_new ao_hartree_lap sbt_c ao ao_log_hartree_method =
     (if upper ao_log_hartree_method = ''LAP''
        then ([Lap_libnao], ao_log_hartree_lap_libnao ao_log_new ao_hartree_lap ao)
      else if upper ao_log_hartree_method = ''SBT''
        then ([Sbt], ao_log_hartree_sbt sbt_c ao)
      else ([], Inl (RuntimeError ''!method'')))"

section \<open>What the solvers are expected to return\<close>

subsection \<open>Well-formed input\<close>

text \<open>
  The input contract of the specification: at least two grid points, all strictly positive;
  as many entries per species in every per-species list as there are species; for each
  species as many rows of orbitals, of rescaled orbitals and as many cutoffs as angular
  momenta; every radial array as long as the grid. The spacing of the grid is no part of it.
\<close>

definition wf_ao :: "ao_log \<Rightarrow> bool" where
  "wf_ao ao \<longleftrightarrow>
     2 \<le> nr ao \<and> length (rr ao) = nr ao \<and> list_all (\<lambda>r. 0 < r) (rr ao) \<and>
     length (psi_log ao) = nspecies ao \<and>
     length (sp_mu2j ao) = nspecies ao \<and>
     length (psi_log_rl ao) = nspecies ao \<and>
     length (sp_mu2rcut ao) = nspecies ao \<and>
     length (sp2rcut ao) = nspecies ao \<and>
     map length (psi_log ao) = map length (sp_mu2j ao) \<and>
     map length (psi_log_rl ao) = map length (sp_mu2j ao) \<and>
     map length (sp_mu2rcut ao) = map length (sp_mu2j ao) \<and>
     list_all (list_all (\<lambda>ff. length ff = nr ao)) (psi_log ao) \<and>
     list_all (list_all (\<lambda>ff. length ff = nr ao)) (psi_log_rl ao)"

text \<open>
  The reciprocal grid that the transform solver needs: as long as the radial grid, and
  strictly positive.
\<close>

definition wf_pp :: "ao_log \<Rightarrow> bool" where
  "wf_pp ao \<longleftrightarrow> length (pp ao) = nr ao \<and> list_all (\<lambda>p. 0 < p) (pp ao)"

text \<open>
  The orders that the transform solver asks its engine for are the angular momenta of the
  multiplets, and the engine is built for the orders up to the attribute \<open>jmx\<close>: every
  angular momentum is an integer from 0 to \<open>jmx\<close>. That \<open>jmx\<close> is the largest of them is
  not required here.
\<close>

definition wf_jmx :: "ao_log \<Rightarrow> bool" where
  "wf_jmx ao \<longleftrightarrow> list_all (list_all (\<lambda>j. 0 \<le> j \<and> j \<le> jmx ao)) (sp_mu2j ao)"

subsection \<open>Contracts of the parts that are not in the module\<close>

text \<open>
  Modelled from the spec: the transform engine (class \<^verbatim>\<open>sbt_c\<close> of \<^verbatim>\<open>pyscf.nao.m_sbt\<close>).
  Built from the two grids and a maximal angular momentum \<open>lmax\<close>, it takes a function
  sampled on one grid to a function sampled on the other, so an array of length \<open>nr\<close> to an
  array of length \<open>nr\<close>, for the orders from 0 up to \<open>lmax\<close> and the two directions, forward
  (\<open>1\<close>) and inverse (\<open>- 1\<close>). Nothing is required of it for any other order or direction.
\<close>

definition engine_contract :: "sbt_engine \<Rightarrow> nat \<Rightarrow> int \<Rightarrow> bool" where
  "engine_contract sbt n lmax \<longleftrightarrow>
     (\<forall>ff am d. length ff = n \<and> 0 \<le> am \<and> am \<le> lmax \<and> (d = 1 \<or> d = - 1) \<longrightarrow>
        (\<exists>g. sbt ff am d = Inr g \<and> length g = n))"

text \<open>
  Modelled from the spec: the copying constructor \<^verbatim>\<open>ao_log(ao_log=ao)\<close> and the compiled
  routine \<^verbatim>\<open>libnao.ao_hartree_lap\<close>. The constructor returns a container of the shape of its
  argument, and the routine fills the buffer that it is given, which keeps its shape.
\<close>

definition same_shape :: "ao_log \<Rightarrow> ao_log \<Rightarrow> bool" where
  "same_shape p ao \<longleftrightarrow>
     map (map length) (psi_log p) = map (map length) (psi_log ao) \<and>
     map (map length) (psi_log_rl p) = map (map length) (psi_log_rl ao) \<and>
     map length (sp_mu2rcut p) = map length (sp_mu2rcut ao) \<and>
     length (sp2rcut p) = length (sp2rcut ao)"

definition routine_contract :: "libnao_routine \<Rightarrow> bool" where
  "routine_contract f \<longleftrightarrow>
     (\<forall>rs n ff N js buf. \<exists>out. f rs n ff N js buf = Inr out \<and> map length out = map length buf)"

subsection \<open>The loop bodies of the solvers in one form\<close>

text \<open>
  The iterations of the direct quadrature and of the transform solver differ only in how the row
  of one multiplet is computed (\<open>lap_row\<close>, \<open>sbt_row\<close>); \<open>row_step\<close> and \<open>species_step\<close> are
  the loop bodies with that computation as a parameter.
\<close>

definition row_step ::
  "(real list \<Rightarrow> int \<Rightarrow> error + real list) \<Rightarrow> ao_log \<Rightarrow> nat \<Rightarrow> nat \<times> real list \<times> int \<Rightarrow> ao_log \<Rightarrow> error + ao_log" where
  "row_step F ao sp = (\<lambda>(mu, ff, am) p.
     bind_err (F ff am) (\<lambda>v.
     bind_err (set_row (psi_log p) sp mu v) (\<lambda>psi.
       store_rescaled ao sp mu am (p\<lparr>psi_log := psi\<rparr>))))"

definition species_step ::
  "(real list \<Rightarrow> int \<Rightarrow> error + real list) \<Rightarrow> ao_log \<Rightarrow> nat \<times> real list list \<Rightarrow> ao_log \<Rightarrow> error + ao_log" where
  "species_step F ao = (\<lambda>(sp, mu2ff) p.
     bind_err (np_get (sp_mu2j ao) sp) (\<lambda>mu2j.
       for_each (enumerate_list (zip mu2ff mu2j)) (row_step F ao sp) p))"

definition lap_row :: "ao_log \<Rightarrow> real \<Rightarrow> real list \<Rightarrow> int \<Rightarrow> error + real list" where
  "lap_row ao dr ff am =
     bind_err (np_broadcast (*) ff (map (\<lambda>r. r ^ 3) (rr ao))) (\<lambda>ffrr3.
     bind_err (lap_vff (nr ao) (rr ao) ffrr3 am) (\<lambda>vff.
       Inr (map (\<lambda>v. (4 * pi * dr) / (2 * of_int am + 1) * v) vff)))"

definition sbt_row :: "sbt_engine \<Rightarrow> ao_log \<Rightarrow> real list \<Rightarrow> int \<Rightarrow> error + real list" where
  "sbt_row sbt ao ff am =
     bind_err (sbt ff am 1) (\<lambda>fp.
     bind_err (np_broadcast (/) fp (map (\<lambda>p. p ^ 2) (pp ao))) (\<lambda>gp.
     bind_err (sbt gp am (- 1)) (\<lambda>v.
       Inr (map (\<lambda>x. (4 * pi) * x) v))))"

subsection \<open>The results in closed form\<close>

text \<open>
  The kernel \<^verbatim>\<open>min(r,r')^j / max(r,r')^(j+1)\<close> of the specification, the quadrature sum
  over all grid points, and the potential of the multiplet \<open>mu\<close> of the species \<open>sp\<close>.
\<close>

definition hartree_kernel :: "real list \<Rightarrow> int \<Rightarrow> nat \<Rightarrow> nat \<Rightarrow> real" where
  "hartree_kernel rs j ir irp =
     power_int (min (rs ! ir) (rs ! irp)) j / power_int (max (rs ! ir) (rs ! irp)) (j + 1)"

definition lap_sum :: "real list \<Rightarrow> real list \<Rightarrow> int \<Rightarrow> nat \<Rightarrow> real" where
  "lap_sum rs f j ir = (\<Sum>irp<length rs. hartree_kernel rs j ir irp * (f ! irp * rs ! irp ^ 3))"

definition lap_psi :: "ao_log \<Rightarrow> nat \<Rightarrow> nat \<Rightarrow> real list" where
  "lap_psi ao sp mu =
     map (\<lambda>ir. (4 * pi * ln (rr ao ! 1 / rr ao ! 0)) / (2 * of_int (sp_mu2j ao ! sp ! mu) + 1)
                 * lap_sum (rr ao) (psi_log ao ! sp ! mu) (sp_mu2j ao ! sp ! mu) ir)
         [0..<length (rr ao)]"

text \<open>
  The rescaled form \<open>V / r\<^sup>j\<close>, the arrays of all multiplets of all species, and the
  cutoff reset.
\<close>

definition rescale :: "ao_log \<Rightarrow> nat \<Rightarrow> nat \<Rightarrow> real list \<Rightarrow> real list" where
  "rescale ao sp mu v = map2 (/) v (map (\<lambda>r. power_int r (sp_mu2j ao ! sp ! mu)) (rr ao))"

definition rows_of :: "(nat \<Rightarrow> nat \<Rightarrow> real list) \<Rightarrow> ao_log \<Rightarrow> real list list list" where
  "rows_of V ao = map (\<lambda>sp. map (V sp) [0..<length (sp_mu2j ao ! sp)]) [0..<nspecies ao]"

definition rescaled_rows_of :: "(nat \<Rightarrow> nat \<Rightarrow> real list) \<Rightarrow> ao_log \<Rightarrow> real list list list" where
  "rescaled_rows_of V ao = rows_of (\<lambda>sp mu. rescale ao sp mu (V sp mu)) ao"

definition rcut_reset :: "ao_log \<Rightarrow> ao_log \<Rightarrow> ao_log" where
  "rcut_reset ao p =
     p\<lparr>sp_mu2rcut := map (\<lambda>c. replicate (length c) (last (rr ao))) (sp_mu2rcut p),
       sp2rcut := replicate (length (sp2rcut p)) (last (rr ao))\<rparr>"

text \<open>
  What the three solvers return on a well-formed input.
\<close>

definition lap_result :: "ao_log \<Rightarrow> ao_log" where
  "lap_result ao = rcut_reset ao (ao\<lparr>psi_log := rows_of (lap_psi ao) ao,
                                     psi_log_rl := rescaled_rows_of (lap_psi ao) ao\<rparr>)"

definition sbt_psi :: "sbt_engine \<Rightarrow> ao_log \<Rightarrow> nat \<Rightarrow> nat \<Rightarrow> real list" where
  "sbt_psi sbt ao sp mu =
     (case sbt_row sbt ao (psi_log ao ! sp ! mu) (sp_mu2j ao ! sp ! mu) of
        Inl e \<Rightarrow> []
      | Inr v \<Rightarrow> v)"

definition sbt_result :: "sbt_engine \<Rightarrow> ao_log \<Rightarrow> ao_log" where
  "sbt_result sbt ao = rcut_reset ao (ao\<lparr>psi_log := rows_of (sbt_psi sbt ao) ao,
                                         psi_log_rl := rescaled_rows_of (sbt_psi sbt ao) ao\<rparr>)"

definition libnao_pot :: "libnao_routine \<Rightarrow> ao_log \<Rightarrow> ao_log \<Rightarrow> nat \<Rightarrow> real list list" where
  "libnao_pot f ao p sp =
     (case f (rr ao) (sp2nmult ao ! sp) (psi_log ao ! sp) (nr ao) (sp_mu2j ao ! sp) (psi_log p ! sp) of
        Inl e \<Rightarrow> []
      | Inr out \<Rightarrow> out)"

definition libnao_result :: "libnao_routine \<Rightarrow> ao_log \<Rightarrow> ao_log \<Rightarrow> ao_log" where
  "libnao_result f ao p =
     rcut_reset ao (p\<lparr>psi_log := map (libnao_pot f ao p) [0..<nspecies ao],
                      psi_log_rl := rescaled_rows_of (\<lambda>sp mu. libnao_pot f ao p sp ! mu) ao\<rparr>)"

subsection \<open>Properties of a returned potential set\<close>

text \<open>
  Every cutoff of a returned potential set is the outermost radius \<open>rr[nr - 1]\<close> of the
  grid, with one cutoff per species and one per multiplet.
\<close>

definition cutoffs_reset :: "ao_log \<Rightarrow> ao_log \<Rightarrow> bool" where
  "cutoffs_reset ao pot \<longleftrightarrow>
     length (sp_mu2rcut pot) = nspecies ao \<and> length (sp2rcut pot) = nspecies ao \<and>
     map length (sp_mu2rcut pot) = map length (sp_mu2j ao) \<and>
     list_all (list_all (\<lambda>c. c = rr ao ! (nr ao - 1))) (sp_mu2rcut pot) \<and>
     list_all (\<lambda>c. c = rr ao ! (nr ao - 1)) (sp2rcut pot)"

text \<open>
  A returned potential set has the frame of the input: the species, the multiplets of each
  species and their angular momenta, the grids, and the lengths of the radial arrays.
\<close>

definition same_frame :: "ao_log \<Rightarrow> ao_log \<Rightarrow> bool" where
  "same_frame pot ao \<longleftrightarrow>
     nspecies pot = nspecies ao \<and> length (psi_log pot) = length (psi_log ao) \<and>
     map length (psi_log pot) = map length (psi_log ao) \<and>
     sp_mu2j pot = sp_mu2j ao \<and>
     nr pot = nr ao \<and> rr pot = rr ao \<and> pp pot = pp ao \<and>
     map (map length) (psi_log pot) = map (map length) (psi_log ao) \<and>
     map (map length) (psi_log_rl pot) = map (map length) (psi_log_rl ao)"

text \<open>
  The row of the multiplet \<open>mu\<close> of the species \<open>sp\<close> is in rescaled form: at every index
  of the potential, the rescaled potential is the potential divided by \<open>rr[ir]\<^sup>j\<close>.
\<close>

definition rescaled_row :: "ao_log \<Rightarrow> ao_log \<Rightarrow> nat \<Rightarrow> nat \<Rightarrow> bool" where
  "rescaled_row ao q sp mu \<longleftrightarrow>
     (\<forall>ir<length (psi_log q ! sp ! mu).
        psi_log_rl q ! sp ! mu ! ir =
          psi_log q ! sp ! mu ! ir / power_int (rr ao ! ir) (sp_mu2j ao ! sp ! mu))"

subsection \<open>Scenarios\<close>

text \<open>
  The end-to-end scenario of the specification: the grid \<open>1, 2, 4, 8\<close>, one species with one
  multiplet of angular momentum 0 and the constant orbital 1; and the same on a grid that is
  not uniformly spaced beyond its first two points.
\<close>

definition ao_example :: ao_log where
  "ao_example =
     \<lparr>nr = 4, nspecies = 1, rr = [1, 2, 4, 8], pp = [1, 2, 4, 8], jmx = 0, sp2nmult = [1],
      sp_mu2j = [[0]], psi_log = [[[1, 1, 1, 1]]], psi_log_rl = [[[1, 1, 1, 1]]],
      sp_mu2rcut = [[3]], sp2rcut = [3]\<rparr>"

definition ao_example_nonuniform :: ao_log where
  "ao_example_nonuniform = ao_example\<lparr>rr := [1, 2, 4, 100]\<rparr>"

text \<open>
  A second orbital set: two species, the first with one multiplet of angular momentum 0, the
  second with two multiplets of angular momenta 1 and 2, on the grid \<open>1, 2, 4\<close>.
\<close>

definition ao_example2 :: ao_log where
  "ao_example2 =
     \<lparr>nr = 3, nspecies = 2, rr = [1, 2, 4], pp = [1, 2, 4], jmx = 2, sp2nmult = [1, 2],
      sp_mu2j = [[0], [1, 2]],
      psi_log = [[[1, 1, 1]], [[1, 0, 0], [0, 1, 2]]],
      psi_log_rl = [[[1, 1, 1]], [[1, 0, 0], [0, 1, 2]]],
      sp_mu2rcut = [[2], [3, 4]], sp2rcut = [2, 4]\<rparr>"

text \<open>
  Collaborators for the scenarios: an engine that returns its argument for the orders from 0
  to \<open>lmax\<close> and the directions \<open>1\<close> and \<open>- 1\<close> and raises for every other order or direction,
  a constructor that copies, a routine that leaves the buffer as it is.
\<close>

definition example_engine :: "int \<Rightarrow> sbt_engine" where
  "example_engine lmax ff am d =
     (if 0 \<le> am \<and> am \<le> lmax \<and> (d = 1 \<or> d = - 1) then Inr ff else Inl ValueError)"

definition example_sbt_c :: sbt_constructor where
  "example_sbt_c rs ps lmax = Inr (example_engine lmax)"

definition example_ao_log_new :: ao_log_constructor where
  "example_ao_log_new ao = Inr ao"

definition example_routine :: libnao_routine where
  "example_routine rs n ff N js buf = Inr buf"

section \<open>The solvers on a store\<close>

text \<open>
  To speak of which arrays a solver writes, arrays get addresses. The store is the list of
  all numpy arrays that exist, an address is a position in it, and allocation appends. An
  orbital container holds the addresses of its arrays (its Python lists of arrays are lists
  of addresses) and the values of its integers. Reading an address that holds an array of
  another kind, or no array, cannot happen in Python and is \<^verbatim>\<open>TypeError\<close> here.
\<close>

type_synonym addr = nat

datatype ndarray = Float1 "real list" | Float2 "real list list" | Int1 "int list"

type_synonym store = "ndarray list"

record ao_obj =
  o_nr :: nat
  o_nspecies :: nat
  o_jmx :: int
  o_rr :: addr
  o_pp :: addr
  o_sp2nmult :: addr
  o_sp2rcut :: addr
  o_sp_mu2j :: "addr list"
  o_psi_log :: "addr list"
  o_psi_log_rl :: "addr list"
  o_sp_mu2rcut :: "addr list"

definition refs :: "ao_obj \<Rightarrow> addr list" where
  "refs ao = [o_rr ao, o_pp ao, o_sp2nmult ao, o_sp2rcut ao] @ o_sp_mu2j ao @ o_psi_log ao @
             o_psi_log_rl ao @ o_sp_mu2rcut ao"

text \<open>
  A computation on the store returns a value or raises, and leaves a store.
\<close>

type_synonym 'a st = "store \<Rightarrow> (error + 'a) \<times> store"

definition lift_st :: "error + 'a \<Rightarrow> 'a st" where
  "lift_st r = (\<lambda>h. (r, h))"

definition bind_st :: "'a st \<Rightarrow> ('a \<Rightarrow> 'b st) \<Rightarrow> 'b st" where
  "bind_st m f = (\<lambda>h. case m h of (Inl e, h') \<Rightarrow> (Inl e, h') | (Inr x, h') \<Rightarrow> f x h')"

fun for_each_st :: "'a list \<Rightarrow> ('a \<Rightarrow> unit st) \<Rightarrow> unit st" where
  "for_each_st [] body = lift_st (Inr ())"
| "for_each_st (x # xs) body = bind_st (body x) (\<lambda>_. for_each_st xs body)"

text \<open>
  Reading the array at an address, \<^verbatim>\<open>a[mu,:]\<close> read, \<^verbatim>\<open>a[mu,:] = v\<close> and \<^verbatim>\<open>a.fill(x)\<close>.
\<close>

definition read_float1 :: "addr \<Rightarrow> real list st" where
  "read_float1 a = (\<lambda>h.
     (if a < length h then (case h ! a of Float1 xs \<Rightarrow> Inr xs | _ \<Rightarrow> Inl TypeError)
      else Inl TypeError, h))"

definition read_float2 :: "addr \<Rightarrow> real list list st" where
  "read_float2 a = (\<lambda>h.
     (if a < length h then (case h ! a of Float2 m \<Rightarrow> Inr m | _ \<Rightarrow> Inl TypeError)
      else Inl TypeError, h))"

definition read_int1 :: "addr \<Rightarrow> int list st" where
  "read_int1 a = (\<lambda>h.
     (if a < length h then (case h ! a of Int1 js \<Rightarrow> Inr js | _ \<Rightarrow> Inl TypeError)
      else Inl TypeError, h))"

definition read_row :: "addr \<Rightarrow> nat \<Rightarrow> real list st" where
  "read_row a mu = bind_st (read_float2 a) (\<lambda>m. lift_st (np_get m mu))"

definition write_row :: "addr \<Rightarrow> nat \<Rightarrow> real list \<Rightarrow> unit st" where
  "write_row a mu v =
     bind_st (read_float2 a) (\<lambda>m.
     bind_st (lift_st (np_get m mu)) (\<lambda>row.
       if length v = length row then (\<lambda>h. (Inr (), h[a := Float2 (m[mu := v])]))
       else if length v = 1
         then (\<lambda>h. (Inr (), h[a := Float2 (m[mu := replicate (length row) (hd v)])]))
       else lift_st (Inl ValueError)))"

definition fill :: "addr \<Rightarrow> real \<Rightarrow> unit st" where
  "fill a x = bind_st (read_float1 a) (\<lambda>xs h. (Inr (), h[a := Float1 (replicate (length xs) x)]))"

text \<open>
  \<^verbatim>\<open>copy.deepcopy(ao)\<close>: every array that the container refers to is copied once to a new
  address at the end of the store (an array referred to twice is copied once, as the memo of
  \<^verbatim>\<open>deepcopy\<close> does), and the copy of the container refers to the copies.
\<close>

definition index_of :: "addr list \<Rightarrow> addr \<Rightarrow> nat" where
  "index_of as a = length (takeWhile (\<lambda>b. b \<noteq> a) as)"

definition relocate :: "(addr \<Rightarrow> addr) \<Rightarrow> ao_obj \<Rightarrow> ao_obj" where
  "relocate new ao =
     ao\<lparr>o_rr := new (o_rr ao), o_pp := new (o_pp ao), o_sp2nmult := new (o_sp2nmult ao),
        o_sp2rcut := new (o_sp2rcut ao), o_sp_mu2j := map new (o_sp_mu2j ao),
        o_psi_log := map new (o_psi_log ao), o_psi_log_rl := map new (o_psi_log_rl ao),
        o_sp_mu2rcut := map new (o_sp_mu2rcut ao)\<rparr>"

definition deepcopy :: "ao_obj \<Rightarrow> ao_obj st" where
  "deepcopy ao = (\<lambda>h.
     let as = remdups (refs ao)
     in (Inr (relocate (\<lambda>a. length h + index_of as a) ao),
         h @ map (\<lambda>a. if a < length h then h ! a else Float1 []) as))"

text \<open>
  The cutoff reset, and the line
  \<^verbatim>\<open>ao_pot.psi_log_rl[sp][mu,:] = ao_pot.psi_log[sp][mu,:]/(ao.rr**am)\<close>.
\<close>

definition fill_sp_mu2rcut_st :: "ao_obj \<Rightarrow> ao_obj \<Rightarrow> nat \<Rightarrow> unit st" where
  "fill_sp_mu2rcut_st ao ao_pot sp =
     bind_st (lift_st (np_get (o_sp_mu2rcut ao_pot) sp)) (\<lambda>a.
     bind_st (read_float1 (o_rr ao)) (\<lambda>rs.
     bind_st (lift_st (np_last rs)) (\<lambda>rmax. fill a rmax)))"

definition fill_rcut_st :: "ao_obj \<Rightarrow> ao_obj \<Rightarrow> unit st" where
  "fill_rcut_st ao ao_pot =
     bind_st (for_each_st (py_range (o_nspecies ao)) (fill_sp_mu2rcut_st ao ao_pot)) (\<lambda>_.
     bind_st (read_float1 (o_rr ao)) (\<lambda>rs.
     bind_st (lift_st (np_last rs)) (\<lambda>rmax. fill (o_sp2rcut ao_pot) rmax)))"

definition store_rescaled_st :: "ao_obj \<Rightarrow> ao_obj \<Rightarrow> nat \<Rightarrow> nat \<Rightarrow> int \<Rightarrow> unit st" where
  "store_rescaled_st ao ao_pot sp mu am =
     bind_st (lift_st (np_get (o_psi_log ao_pot) sp)) (\<lambda>a_pot.
     bind_st (read_row a_pot mu) (\<lambda>row.
     bind_st (read_float1 (o_rr ao)) (\<lambda>rs.
     bind_st (lift_st (np_broadcast (/) row (map (\<lambda>r. power_int r am) rs))) (\<lambda>q.
     bind_st (lift_st (np_get (o_psi_log_rl ao_pot) sp)) (\<lambda>a_rl.
       write_row a_rl mu q)))))"

text \<open>
  The direct quadrature. The rows \<open>ff\<close> of \<^verbatim>\<open>ao.psi_log[sp]\<close> and the entries \<open>am\<close> of
  \<^verbatim>\<open>ao.sp_mu2j[sp]\<close> are views of the input arrays, read when the loop reaches them; the
  buffers \<open>ffrr3\<close> and \<open>vff\<close> are local to the call, and the double loop, which writes only
  \<open>vff\<close>, is the function \<open>lap_vff\<close> of the grid as it is read before the loop.
\<close>

definition lap_mult_st :: "ao_obj \<Rightarrow> ao_obj \<Rightarrow> real \<Rightarrow> nat \<Rightarrow> addr \<Rightarrow> addr \<Rightarrow> nat \<Rightarrow> unit st" where
  "lap_mult_st ao ao_pot dr sp a_ff a_j mu =
     bind_st (read_row a_ff mu) (\<lambda>ff.
     bind_st (bind_st (read_int1 a_j) (\<lambda>js. lift_st (np_get js mu))) (\<lambda>am.
     bind_st (read_float1 (o_rr ao)) (\<lambda>rs.
     bind_st (lift_st (np_broadcast (*) ff (map (\<lambda>r. r ^ 3) rs))) (\<lambda>ffrr3.
     bind_st (lift_st (lap_vff (o_nr ao) rs ffrr3 am)) (\<lambda>vff.
     bind_st (lift_st (np_get (o_psi_log ao_pot) sp)) (\<lambda>a_pot.
     bind_st (write_row a_pot mu (map (\<lambda>v. (4 * pi * dr) / (2 * of_int am + 1) * v) vff)) (\<lambda>_.
       store_rescaled_st ao ao_pot sp mu am)))))))"

definition lap_species_st :: "ao_obj \<Rightarrow> ao_obj \<Rightarrow> real \<Rightarrow> nat \<times> addr \<Rightarrow> unit st" where
  "lap_species_st ao ao_pot dr = (\<lambda>(sp, a_ff).
     bind_st (lift_st (np_get (o_sp_mu2j ao) sp)) (\<lambda>a_j.
     bind_st (read_float2 a_ff) (\<lambda>mu2ff.
     bind_st (read_int1 a_j) (\<lambda>mu2j.
       for_each_st (py_range (min (length mu2ff) (length mu2j)))
         (lap_mult_st ao ao_pot dr sp a_ff a_j)))))"

definition ao_log_hartree_lap_st :: "ao_obj \<Rightarrow> ao_obj st" where
  "ao_log_hartree_lap_st ao =
     bind_st (deepcopy ao) (\<lambda>ao_pot.
     bind_st (read_float1 (o_rr ao)) (\<lambda>rs.
     bind_st (lift_st (np_get rs 1)) (\<lambda>r1.
     bind_st (lift_st (np_get rs 0)) (\<lambda>r0.
     let dr = ln (r1 / r0) in
     bind_st (for_each_st (enumerate_list (o_psi_log ao)) (lap_species_st ao ao_pot dr)) (\<lambda>_.
     bind_st (fill_rcut_st ao ao_pot) (\<lambda>_.
       lift_st (Inr ao_pot)))))))"

text \<open>
  The transform solver; the engine computes on values and has no access to the store.
\<close>

definition sbt_mult_st :: "sbt_engine \<Rightarrow> ao_obj \<Rightarrow> ao_obj \<Rightarrow> nat \<Rightarrow> addr \<Rightarrow> addr \<Rightarrow> nat \<Rightarrow> unit st" where
  "sbt_mult_st sbt ao ao_pot sp a_ff a_j mu =
     bind_st (read_row a_ff mu) (\<lambda>ff.
     bind_st (bind_st (read_int1 a_j) (\<lambda>js. lift_st (np_get js mu))) (\<lambda>am.
     bind_st (lift_st (sbt ff am 1)) (\<lambda>fp.
     bind_st (read_float1 (o_pp ao)) (\<lambda>ps.
     bind_st (lift_st (np_broadcast (/) fp (map (\<lambda>p. p ^ 2) ps))) (\<lambda>gp.
     bind_st (lift_st (sbt gp am (- 1))) (\<lambda>v.
     bind_st (lift_st (np_get (o_psi_log ao_pot) sp)) (\<lambda>a_pot.
     bind_st (write_row a_pot mu (map (\<lambda>x. (4 * pi) * x) v)) (\<lambda>_.
       store_rescaled_st ao ao_pot sp mu am))))))))"

definition sbt_species_st :: "sbt_engine \<Rightarrow> ao_obj \<Rightarrow> ao_obj \<Rightarrow> nat \<times> addr \<Rightarrow> unit st" where
  "sbt_species_st sbt ao ao_pot = (\<lambda>(sp, a_ff).
     bind_st (lift_st (np_get (o_sp_mu2j ao) sp)) (\<lambda>a_j.
     bind_st (read_float2 a_ff) (\<lambda>mu2ff.
     bind_st (read_int1 a_j) (\<lambda>mu2j.
       for_each_st (py_range (min (length mu2ff) (length mu2j)))
         (sbt_mult_st sbt ao ao_pot sp a_ff a_j)))))"

definition ao_log_hartree_sbt_st :: "sbt_constructor \<Rightarrow> ao_obj \<Rightarrow> ao_obj st" where
  "ao_log_hartree_sbt_st sbt_c ao =
     bind_st (read_float1 (o_rr ao)) (\<lambda>rs.
     bind_st (read_float1 (o_pp ao)) (\<lambda>ps.
     bind_st (lift_st (sbt_c rs ps (o_jmx ao))) (\<lambda>sbt.
     bind_st (deepcopy ao) (\<lambda>ao_pot.
     bind_st (for_each_st (enumerate_list (o_psi_log ao)) (sbt_species_st sbt ao ao_pot)) (\<lambda>_.
     bind_st (fill_rcut_st ao ao_pot) (\<lambda>_.
       lift_st (Inr ao_pot)))))))"

text \<open>
  The library-backed solver. Its loop over the species rebinds an entry of the list
  \<^verbatim>\<open>ao_pot.psi_log\<close>, so the container of the potentials is threaded through the loop:
  \<^verbatim>\<open>for x in xs: s = body(x, s)\<close> on the store.
\<close>

fun for_each_acc :: "'a list \<Rightarrow> ('a \<Rightarrow> 's \<Rightarrow> 's st) \<Rightarrow> 's \<Rightarrow> 's st" where
  "for_each_acc [] body s = lift_st (Inr s)"
| "for_each_acc (x # xs) body s = bind_st (body x s) (for_each_acc xs body)"

text \<open>
  \<^verbatim>\<open>np.require(a, dtype=..., requirements=...)\<close> returns the array \<open>a\<close> itself when it has the
  type and the memory layout that are asked for, and a new array with the same values
  otherwise. The store holds the values of the arrays, not their layout, so which arrays
  meet the requirements is a parameter, \<open>meets\<close>.
\<close>

definition np_require :: "(addr \<Rightarrow> bool) \<Rightarrow> addr \<Rightarrow> addr st" where
  "np_require meets a = (\<lambda>h.
     if meets a then (Inr a, h)
     else if a < length h then (Inr (length h), h @ [h ! a])
     else (Inl TypeError, h))"

text \<open>
  Modelled from the spec: the call of the compiled routine \<^verbatim>\<open>libnao.ao_hartree_lap\<close>, which
  is given six pointers. It reads the arrays behind the first five and writes the buffer
  behind the sixth, \<open>ff_pot\<close>, and no other memory; the new content of the buffer is what the
  routine of the value model returns.
\<close>

definition libnao_call_st ::
  "libnao_routine \<Rightarrow> ao_obj \<Rightarrow> addr \<Rightarrow> addr \<Rightarrow> addr \<Rightarrow> addr \<Rightarrow> nat \<Rightarrow> unit st" where
  "libnao_call_st ao_hartree_lap ao a_rr a_ff a_j a_pot sp =
     bind_st (read_int1 (o_sp2nmult ao)) (\<lambda>sp2nmult.
     bind_st (lift_st (np_get sp2nmult sp)) (\<lambda>nmult.
     bind_st (read_float1 a_rr) (\<lambda>rs.
     bind_st (read_float2 a_ff) (\<lambda>ff_rad.
     bind_st (read_int1 a_j) (\<lambda>mu2j.
     bind_st (read_float2 a_pot) (\<lambda>ff_pot.
     bind_st (lift_st (ao_hartree_lap rs nmult ff_rad (o_nr ao) mu2j ff_pot)) (\<lambda>out.
       (\<lambda>h. (Inr (), h[a_pot := Float2 out])))))))))"

text \<open>
  \<^verbatim>\<open>for mu,am in enumerate(ao.sp_mu2j[sp]): ao_pot.psi_log_rl[sp][mu,:] = ...\<close>
\<close>

definition libnao_rescale_st :: "ao_obj \<Rightarrow> ao_obj \<Rightarrow> nat \<Rightarrow> unit st" where
  "libnao_rescale_st ao ao_pot sp =
     bind_st (lift_st (np_get (o_sp_mu2j ao) sp)) (\<lambda>a_j.
     bind_st (read_int1 a_j) (\<lambda>mu2j.
       for_each_st (enumerate_list mu2j) (\<lambda>(mu, am). store_rescaled_st ao ao_pot sp mu am)))"

text \<open>
  The body of the loop over the species: the three calls of \<^verbatim>\<open>np.require\<close>, the call of the
  routine, the assignment \<^verbatim>\<open>ao_pot.psi_log[sp] = ff_pot\<close> and the rescaling.
\<close>

definition libnao_species_st ::
  "(addr \<Rightarrow> bool) \<Rightarrow> libnao_routine \<Rightarrow> ao_obj \<Rightarrow> addr \<Rightarrow> nat \<Rightarrow> ao_obj \<Rightarrow> ao_obj st" where
  "libnao_species_st meets ao_hartree_lap ao a_rr sp ao_pot =
     bind_st (lift_st (np_get (o_sp_mu2j ao) sp)) (\<lambda>a.
     bind_st (np_require meets a) (\<lambda>a_j.
     bind_st (lift_st (np_get (o_psi_log ao) sp)) (\<lambda>a.
     bind_st (np_require meets a) (\<lambda>a_ff.
     bind_st (lift_st (np_get (o_psi_log ao_pot) sp)) (\<lambda>a.
     bind_st (np_require meets a) (\<lambda>a_pot.
     bind_st (libnao_call_st ao_hartree_lap ao a_rr a_ff a_j a_pot sp) (\<lambda>_.
     let ao_pot = ao_pot\<lparr>o_psi_log := (o_psi_log ao_pot)[sp := a_pot]\<rparr> in
     bind_st (libnao_rescale_st ao ao_pot sp) (\<lambda>_.
       lift_st (Inr ao_pot)))))))))"

text \<open>
  The copying constructor \<^verbatim>\<open>ao_log(ao_log=ao)\<close> is not part of this module and is a
  parameter: a computation on the store that returns a container.
\<close>

type_synonym ao_log_constructor_st = "ao_obj \<Rightarrow> ao_obj st"

definition ao_log_hartree_lap_libnao_st ::
  "ao_log_constructor_st \<Rightarrow> (addr \<Rightarrow> bool) \<Rightarrow> libnao_routine \<Rightarrow> ao_obj \<Rightarrow> ao_obj st" where
  "ao_log_hartree_lap_libnao_st ao_log_new meets ao_hartree_lap ao =
     bind_st (ao_log_new ao) (\<lambda>ao_pot.
     bind_st (np_require meets (o_rr ao)) (\<lambda>a_rr.
     bind_st (for_each_acc (py_range (o_nspecies ao))
                (libnao_species_st meets ao_hartree_lap ao a_rr) ao_pot) (\<lambda>ao_pot.
     bind_st (fill_rcut_st ao ao_pot) (\<lambda>_.
       lift_st (Inr ao_pot)))))"

text \<open>
  What each solver does after the copy, as one computation.
\<close>

definition lap_body_st :: "ao_obj \<Rightarrow> ao_obj \<Rightarrow> unit st" where
  "lap_body_st ao ao_pot =
     bind_st (read_float1 (o_rr ao)) (\<lambda>rs.
     bind_st (lift_st (np_get rs 1)) (\<lambda>r1.
     bind_st (lift_st (np_get rs 0)) (\<lambda>r0.
     let dr = ln (r1 / r0) in
     bind_st (for_each_st (enumerate_list (o_psi_log ao)) (lap_species_st ao ao_pot dr)) (\<lambda>_.
       fill_rcut_st ao ao_pot))))"

definition sbt_body_st :: "sbt_engine \<Rightarrow> ao_obj \<Rightarrow> ao_obj \<Rightarrow> unit st" where
  "sbt_body_st sbt ao ao_pot =
     bind_st (for_each_st (enumerate_list (o_psi_log ao)) (sbt_species_st sbt ao ao_pot)) (\<lambda>_.
       fill_rcut_st ao ao_pot)"

subsection \<open>What a call keeps\<close>

text \<open>
  A computation keeps the first \<open>L\<close> cells of every store that has them; a container is
  fresh above \<open>L\<close> when all its addresses are at or above \<open>L\<close>.
\<close>

definition frame_st :: "nat \<Rightarrow> 'a st \<Rightarrow> bool" where
  "frame_st L m \<longleftrightarrow>
     (\<forall>h. L \<le> length h \<longrightarrow> length (snd (m h)) = length h \<and> (\<forall>a<L. snd (m h) ! a = h ! a))"

definition fresh :: "nat \<Rightarrow> ao_obj \<Rightarrow> bool" where
  "fresh L ao_pot \<longleftrightarrow> list_all (\<lambda>a. L \<le> a) (refs ao_pot)"

text \<open>
  What C7 says of the outcome \<open>(r, h')\<close> of a call on the container \<open>ao\<close> in the store \<open>h\<close>:
  every array that existed before the call is unchanged, and a returned potential set has
  the integers of the input and refers only to arrays allocated by the call, none of them an
  array of the input.
\<close>

definition fresh_result :: "ao_obj \<Rightarrow> store \<Rightarrow> (error + ao_obj) \<times> store \<Rightarrow> bool" where
  "fresh_result ao h out \<longleftrightarrow>
     (case out of (r, h') \<Rightarrow>
        take (length h) h' = h \<and>
        (case r of
           Inl e \<Rightarrow> True
         | Inr pot \<Rightarrow>
             list_all (\<lambda>a. length h \<le> a \<and> a < length h') (refs pot) \<and>
             set (refs pot) \<inter> set (refs ao) = {} \<and>
             o_nr pot = o_nr ao \<and> o_nspecies pot = o_nspecies ao \<and> o_jmx pot = o_jmx ao \<and>
             length (o_sp_mu2j pot) = length (o_sp_mu2j ao) \<and>
             length (o_psi_log pot) = length (o_psi_log ao)))"

text \<open>
  A computation that may allocate: started in a store that begins with \<open>h0\<close> and whose length
  satisfies \<open>P\<close>, it leaves a store that begins with \<open>h0\<close>, and the value that it returns
  satisfies \<open>Q\<close> with the length of that store.
\<close>

definition safe :: "store \<Rightarrow> (nat \<Rightarrow> bool) \<Rightarrow> 'a st \<Rightarrow> ('a \<Rightarrow> nat \<Rightarrow> bool) \<Rightarrow> bool" where
  "safe h0 P m Q \<longleftrightarrow>
     (\<forall>h. take (length h0) h = h0 \<and> P (length h) \<longrightarrow>
        (case m h of (r, h') \<Rightarrow>
           take (length h0) h' = h0 \<and> (case r of Inl e \<Rightarrow> True | Inr x \<Rightarrow> Q x (length h'))))"

text \<open>
  A container \<open>pot\<close> with the integers of \<open>ao\<close> all of whose arrays have addresses from \<open>L\<close>
  up to \<open>n\<close>.
\<close>

definition fresh_in :: "ao_obj \<Rightarrow> nat \<Rightarrow> ao_obj \<Rightarrow> nat \<Rightarrow> bool" where
  "fresh_in ao L pot n \<longleftrightarrow>
     list_all (\<lambda>a. L \<le> a \<and> a < n) (refs pot) \<and>
     o_nr pot = o_nr ao \<and> o_nspecies pot = o_nspecies ao \<and> o_jmx pot = o_jmx ao \<and>
     length (o_sp_mu2j pot) = length (o_sp_mu2j ao) \<and>
     length (o_psi_log pot) = length (o_psi_log ao)"

subsection \<open>From the store to the value model\<close>

text \<open>
  The orbital set that a container denotes in a store: each address is replaced by the
  array that the store holds there.
\<close>

fun float1_of :: "ndarray \<Rightarrow> real list" where
  "float1_of (Float1 xs) = xs"
| "float1_of (Float2 m) = []"
| "float1_of (Int1 js) = []"

fun float2_of :: "ndarray \<Rightarrow> real list list" where
  "float2_of (Float1 xs) = []"
| "float2_of (Float2 m) = m"
| "float2_of (Int1 js) = []"

fun int1_of :: "ndarray \<Rightarrow> int list" where
  "int1_of (Float1 xs) = []"
| "int1_of (Float2 m) = []"
| "int1_of (Int1 js) = js"

definition abs_ao :: "store \<Rightarrow> ao_obj \<Rightarrow> ao_log" where
  "abs_ao h ob =
     \<lparr>nr = o_nr ob, nspecies = o_nspecies ob,
      rr = float1_of (h ! o_rr ob), pp = float1_of (h ! o_pp ob), jmx = o_jmx ob,
      sp2nmult = int1_of (h ! o_sp2nmult ob),
      sp_mu2j = map (\<lambda>a. int1_of (h ! a)) (o_sp_mu2j ob),
      psi_log = map (\<lambda>a. float2_of (h ! a)) (o_psi_log ob),
      psi_log_rl = map (\<lambda>a. float2_of (h ! a)) (o_psi_log_rl ob),
      sp_mu2rcut = map (\<lambda>a. float1_of (h ! a)) (o_sp_mu2rcut ob),
      sp2rcut = float1_of (h ! o_sp2rcut ob)\<rparr>"

text \<open>
  A container is typed in a store when each of its addresses holds an array of the kind that
  the attribute has, and unaliased when the arrays that a solver writes (potentials, rescaled
  potentials, cutoffs) are pairwise different objects, different from the two grids.
\<close>

fun is_float1 :: "ndarray \<Rightarrow> bool" where
  "is_float1 (Float1 xs) = True"
| "is_float1 (Float2 m) = False"
| "is_float1 (Int1 js) = False"

fun is_float2 :: "ndarray \<Rightarrow> bool" where
  "is_float2 (Float1 xs) = False"
| "is_float2 (Float2 m) = True"
| "is_float2 (Int1 js) = False"

fun is_int1 :: "ndarray \<Rightarrow> bool" where
  "is_int1 (Float1 xs) = False"
| "is_int1 (Float2 m) = False"
| "is_int1 (Int1 js) = True"

definition typed :: "store \<Rightarrow> ao_obj \<Rightarrow> bool" where
  "typed h ob \<longleftrightarrow>
     list_all (\<lambda>a. a < length h) (refs ob) \<and>
     is_float1 (h ! o_rr ob) \<and> is_float1 (h ! o_pp ob) \<and> is_int1 (h ! o_sp2nmult ob) \<and>
     is_float1 (h ! o_sp2rcut ob) \<and>
     list_all (\<lambda>a. is_int1 (h ! a)) (o_sp_mu2j ob) \<and>
     list_all (\<lambda>a. is_float2 (h ! a)) (o_psi_log ob) \<and>
     list_all (\<lambda>a. is_float2 (h ! a)) (o_psi_log_rl ob) \<and>
     list_all (\<lambda>a. is_float1 (h ! a)) (o_sp_mu2rcut ob)"

definition unaliased :: "ao_obj \<Rightarrow> bool" where
  "unaliased ob \<longleftrightarrow>
     distinct (o_psi_log ob @ o_psi_log_rl ob) \<and>
     distinct ([o_rr ob, o_sp2rcut ob] @ o_sp_mu2rcut ob) \<and>
     o_pp ob \<notin> set (o_sp2rcut ob # o_sp_mu2rcut ob)"

text \<open>
  The relation that a solver keeps between the store and the potential set of the value
  model while it runs: the store begins with the store \<open>h0\<close> of the call, and the copy \<open>pot\<close>
  denotes the potential set \<open>p\<close>.
\<close>

definition rel_st :: "store \<Rightarrow> ao_obj \<Rightarrow> store \<Rightarrow> ao_log \<Rightarrow> bool" where
  "rel_st h0 pot h p \<longleftrightarrow> take (length h0) h = h0 \<and> typed h pot \<and> abs_ao h pot = p"

text \<open>
  A store that holds one orbital set on the grid \<open>1, 2\<close>, and the container of it.
\<close>

definition store_example :: store where
  "store_example =
     [Float1 [1, 2], Float1 [1, 2], Int1 [1], Float1 [3], Int1 [0],
      Float2 [[1, 1]], Float2 [[1, 1]], Float1 [3]]"

definition obj_example :: ao_obj where
  "obj_example =
     \<lparr>o_nr = 2, o_nspecies = 1, o_jmx = 0, o_rr = 0, o_pp = 1, o_sp2nmult = 2, o_sp2rcut = 3,
      o_sp_mu2j = [4], o_psi_log = [5], o_psi_log_rl = [6], o_sp_mu2rcut = [7]\<rparr>"

section \<open>The innermost term in \<^verbatim>\<open>float64\<close> arithmetic\<close>

text \<open>
  The grid points are numpy \<^verbatim>\<open>float64\<close> scalars, and the term that the double loop adds is
  computed in IEEE binary64 arithmetic. For the claim that this term involves no division by
  zero and is finite, the lines 113 to 115 of the source are modelled once more, with the
  numbers of binary64: a finite number, given by its value, the two infinities and
  \<^verbatim>\<open>nan\<close>. The sign of a zero is not represented. It decides only which of the two
  infinities a division by zero gives, and in the term every divisor is a power of a positive
  number, so never the negative zero.
\<close>

datatype float64 = Num real | PInf | NInf | NaN

text \<open>
  Rounding of a real number to binary64, to the nearest number and to the even one of two
  nearest: binary64 has 53 bits of precision, its normal numbers begin at \<open>2\<^sup>-\<^sup>1\<^sup>0\<^sup>2\<^sup>2\<close>, below
  which the numbers are \<open>2\<^sup>-\<^sup>1\<^sup>0\<^sup>7\<^sup>4\<close> apart, and a result of magnitude \<open>2\<^sup>1\<^sup>0\<^sup>2\<^sup>4\<close> or more is an
  infinity. \<open>rne\<close> rounds to the nearest integer, \<open>quantum x\<close> is the distance of the binary64
  numbers around \<open>x\<close>.
\<close>

definition rne :: "real \<Rightarrow> int" where
  "rne x = (let n = \<lfloor>x\<rfloor>; d = x - of_int n in
            if d < 1 / 2 then n else if 1 / 2 < d then n + 1 else if even n then n else n + 1)"

definition quantum :: "real \<Rightarrow> real" where
  "quantum x = (if \<bar>x\<bar> < 2 powi (- 1022) then 2 powi (- 1074) else 2 powi (\<lfloor>log 2 \<bar>x\<bar>\<rfloor> - 52))"

definition round64 :: "real \<Rightarrow> float64" where
  "round64 x = (let y = of_int (rne (x / quantum x)) * quantum x in
                if 2 powi 1024 \<le> \<bar>y\<bar> then (if 0 < x then PInf else NInf) else Num y)"

text \<open>
  Multiplication and division. An operation on finite numbers is the exact operation followed
  by rounding; numpy divides a \<^verbatim>\<open>float64\<close> scalar by zero without raising, the result is an
  infinity, or \<^verbatim>\<open>nan\<close> for \<open>0/0\<close>; an infinity times zero is \<^verbatim>\<open>nan\<close>.
\<close>

fun f64_sign :: "float64 \<Rightarrow> real" where
  "f64_sign (Num x) = sgn x"
| "f64_sign PInf = 1"
| "f64_sign NInf = - 1"
| "f64_sign NaN = 0"

definition inf_of :: "real \<Rightarrow> float64" where
  "inf_of s = (if s = 0 then NaN else if 0 < s then PInf else NInf)"

fun f64_mul :: "float64 \<Rightarrow> float64 \<Rightarrow> float64" where
  "f64_mul (Num x) (Num y) = round64 (x * y)"
| "f64_mul NaN b = NaN"
| "f64_mul a NaN = NaN"
| "f64_mul a b = inf_of (f64_sign a * f64_sign b)"

fun f64_div :: "float64 \<Rightarrow> float64 \<Rightarrow> float64" where
  "f64_div (Num x) (Num y) = (if y = 0 then inf_of (sgn x) else round64 (x / y))"
| "f64_div NaN b = NaN"
| "f64_div a NaN = NaN"
| "f64_div (Num x) b = Num 0"
| "f64_div a (Num y) = inf_of (f64_sign a * (if y < 0 then - 1 else 1))"
| "f64_div a b = NaN"

text \<open>
  \<^verbatim>\<open>x ** n\<close> for a \<^verbatim>\<open>float64\<close> scalar \<open>x\<close> and an integer \<open>n\<close>: numpy converts \<open>n\<close> to
  \<^verbatim>\<open>float64\<close> and calls \<^verbatim>\<open>pow\<close> of the C library, whose result is taken to be the rounded
  exact power.
\<close>

definition f64_pow :: "float64 \<Rightarrow> int \<Rightarrow> float64" where
  "f64_pow a n =
     (if n = 0 then Num 1
      else case a of
        Num x \<Rightarrow> if x = 0 then (if 0 < n then Num 0 else PInf) else round64 (x powi n)
      | PInf \<Rightarrow> if 0 < n then PInf else Num 0
      | NInf \<Rightarrow> if n < 0 then Num 0 else if odd n then NInf else PInf
      | NaN \<Rightarrow> NaN)"

text \<open>
  The comparison of two numbers, false when one of them is \<^verbatim>\<open>nan\<close>, and the builtins
  \<^verbatim>\<open>min(a, b)\<close> and \<^verbatim>\<open>max(a, b)\<close> of Python, which return \<open>a\<close> unless \<open>b\<close> is smaller, or
  larger.
\<close>

fun f64_less :: "float64 \<Rightarrow> float64 \<Rightarrow> bool" where
  "f64_less (Num x) (Num y) = (x < y)"
| "f64_less NaN b = False"
| "f64_less a NaN = False"
| "f64_less NInf b = (b \<noteq> NInf)"
| "f64_less a PInf = (a \<noteq> PInf)"
| "f64_less a b = False"

definition py_min :: "float64 \<Rightarrow> float64 \<Rightarrow> float64" where
  "py_min a b = (if f64_less b a then b else a)"

definition py_max :: "float64 \<Rightarrow> float64 \<Rightarrow> float64" where
  "py_max a b = (if f64_less a b then b else a)"

text \<open>
  The term added to \<^verbatim>\<open>vff[ir]\<close> for \<open>irp\<close>, as \<open>lap_term\<close> but in binary64.
\<close>

definition lap_term_f64 :: "float64 list \<Rightarrow> float64 list \<Rightarrow> int \<Rightarrow> nat \<Rightarrow> nat \<Rightarrow> error + float64" where
  "lap_term_f64 rs ffrr3 am ir irp =
     bind_err (np_get rs ir) (\<lambda>r.
     bind_err (np_get rs irp) (\<lambda>rp.
     let rrl = f64_pow (py_min r rp) am;
         rrg = f64_pow (py_max r rp) (am + 1)
     in bind_err (np_get ffrr3 irp) (\<lambda>g. Inr (f64_mul (f64_div rrl rrg) g))))"

section \<open>Auxiliary facts\<close>

subsection \<open>The error monad, the loop rules and the numpy operations\<close>

lemma bind_err_Inr [simp]: "bind_err (Inr x) f = f x"
  by (simp add: bind_err_def)

lemma bind_err_Inl [simp]: "bind_err (Inl e) f = Inl e"
  by (simp add: bind_err_def)

lemma bind_err_assoc: "bind_err (bind_err m f) g = bind_err m (\<lambda>x. bind_err (f x) g)"
  by (cases m) simp_all

lemma for_each_rule:
  assumes "I 0 s0"
    and "\<And>i s. i < length xs \<Longrightarrow> I i s \<Longrightarrow> \<exists>s'. body (xs ! i) s = Inr s' \<and> I (Suc i) s'"
  shows "\<exists>s'. for_each xs body s0 = Inr s' \<and> I (length xs) s'"
  using assms
proof (induction xs arbitrary: s0 I)
  case Nil
  then show ?case by simp
next
  case (Cons x xs)
  from Cons.prems(2)[of 0 s0] Cons.prems(1)
  obtain s1 where s1: "body x s0 = Inr s1" "I (Suc 0) s1" by auto
  have "\<exists>s'. for_each xs body s1 = Inr s' \<and> (\<lambda>i. I (Suc i)) (length xs) s'"
  proof (rule Cons.IH)
    show "I (Suc 0) s1" by (rule s1)
  next
    fix i s assume "i < length xs" "I (Suc i) s"
    then show "\<exists>s'. body (xs ! i) s = Inr s' \<and> I (Suc (Suc i)) s'"
      using Cons.prems(2)[of "Suc i" s] by simp
  qed
  then show ?case using s1 by simp
qed

lemma for_each_preserves:
  assumes "P s0"
    and "\<And>x s s'. x \<in> set xs \<Longrightarrow> P s \<Longrightarrow> body x s = Inr s' \<Longrightarrow> P s'"
    and "for_each xs body s0 = Inr s'"
  shows "P s'"
  using assms
proof (induction xs arbitrary: s0)
  case Nil
  then show ?case by simp
next
  case (Cons x xs)
  from Cons.prems(3) obtain s1 where s1: "body x s0 = Inr s1" "for_each xs body s1 = Inr s'"
    by (cases "body x s0") simp_all
  have "P s1" using Cons.prems(1) s1(1) Cons.prems(2)[of x s0 s1] by simp
  moreover have "\<And>y s t. y \<in> set xs \<Longrightarrow> P s \<Longrightarrow> body y s = Inr t \<Longrightarrow> P t"
    using Cons.prems(2) by (meson list.set_intros(2))
  ultimately show ?case using s1(2) by (rule Cons.IH)
qed

lemma np_get_Inr [simp]: "i < length xs \<Longrightarrow> np_get xs i = Inr (xs ! i)"
  by (simp add: np_get_def)

lemma np_last_Inr [simp]: "xs \<noteq> [] \<Longrightarrow> np_last xs = Inr (last xs)"
  by (simp add: np_last_def)

lemma np_broadcast_eq [simp]:
  "length xs = length ys \<Longrightarrow> np_broadcast f xs ys = Inr (map2 f xs ys)"
  by (simp add: np_broadcast_def)

lemma set_row_Inr:
  "sp < length a \<Longrightarrow> mu < length (a ! sp) \<Longrightarrow> length v = length (a ! sp ! mu) \<Longrightarrow>
   set_row a sp mu v = Inr (a[sp := (a ! sp)[mu := v]])"
  by (simp add: set_row_def)

lemma get_row_Inr:
  "sp < length a \<Longrightarrow> mu < length (a ! sp) \<Longrightarrow> get_row a sp mu = Inr (a ! sp ! mu)"
  by (simp add: get_row_def)

lemma snoc_update_drop:
  "length A = k \<Longrightarrow> k < length B \<Longrightarrow> (A @ drop k B)[k := v] = (A @ [v]) @ drop (Suc k) B"
proof -
  assume A: "length A = k" and k: "k < length B"
  from k have "drop k B = B ! k # drop (Suc k) B" by (rule Cons_nth_drop_Suc[symmetric])
  then show ?thesis using A by (simp add: list_update_append)
qed

lemma map_length_nth:
  "map length xs = map length ys \<Longrightarrow> i < length ys \<Longrightarrow> length (xs ! i) = length (ys ! i)"
proof -
  assume a: "map length xs = map length ys" and i: "i < length ys"
  from a have l: "length xs = length ys" by (rule map_eq_imp_length_eq)
  have "map length xs ! i = map length ys ! i" using a by simp
  then show ?thesis using i l by simp
qed

subsection \<open>The double loop\<close>

lemma lap_term_Inr:
  "ir < length rs \<Longrightarrow> irp < length rs \<Longrightarrow> irp < length g \<Longrightarrow>
   lap_term rs g am ir irp = Inr (hartree_kernel rs am ir irp * g ! irp)"
  by (simp add: lap_term_def hartree_kernel_def)

lemma lap_ir_body_Inr:
  assumes "n \<le> length rs" "n \<le> length g" "ir < n" "ir < length vff"
  shows "lap_ir_body n rs g am ir vff =
     Inr (vff[ir := vff ! ir + (\<Sum>irp<n. hartree_kernel rs am ir irp * g ! irp)])"
proof -
  let ?t = "\<lambda>irp. hartree_kernel rs am ir irp * g ! irp"
  let ?I = "\<lambda>k v. k \<le> n \<and> v = vff[ir := vff ! ir + (\<Sum>irp<k. ?t irp)]"
  have "\<exists>s'. for_each (py_range n) (lap_irp_body rs g am ir) vff = Inr s' \<and> ?I (length (py_range n)) s'"
  proof (rule for_each_rule)
    show "?I 0 vff" by simp
  next
    fix i s assume i: "i < length (py_range n)" and s: "?I i s"
    from i have "i < n" by (simp add: py_range_def)
    then show "\<exists>s'. lap_irp_body rs g am ir (py_range n ! i) s = Inr s' \<and> ?I (Suc i) s'"
      using assms s by (simp add: lap_irp_body_def py_range_def lap_term_Inr add.assoc)
  qed
  then show ?thesis by (simp add: lap_ir_body_def py_range_def)
qed

lemma lap_vff_Inr:
  assumes "n \<le> length rs" "n \<le> length g"
  shows "lap_vff n rs g am =
     Inr (map (\<lambda>ir. \<Sum>irp<n. hartree_kernel rs am ir irp * g ! irp) [0..<n])"
proof -
  let ?v = "\<lambda>ir. \<Sum>irp<n. hartree_kernel rs am ir irp * g ! irp"
  let ?I = "\<lambda>k v. k \<le> n \<and> v = map ?v [0..<k] @ replicate (n - k) 0"
  have "\<exists>s'. for_each (py_range n) (lap_ir_body n rs g am) (replicate n 0) = Inr s' \<and> ?I (length (py_range n)) s'"
  proof (rule for_each_rule)
    show "?I 0 (replicate n 0)" by simp
  next
    fix i s assume i: "i < length (py_range n)" and s: "?I i s"
    from i have i': "i < n" by (simp add: py_range_def)
    have len: "i < length s" using s i' by simp
    have "lap_ir_body n rs g am i s = Inr (s[i := s ! i + ?v i])"
      using assms i' len by (rule lap_ir_body_Inr)
    moreover have "s ! i = 0" using s i' by (simp add: nth_append)
    moreover have "(map ?v [0..<i] @ replicate (n - i) 0)[i := ?v i] = map ?v [0..<Suc i] @ replicate (n - Suc i) 0"
    proof -
      from i' have "n - i = Suc (n - Suc i)" by simp
      then show ?thesis by (simp add: list_update_append)
    qed
    ultimately show "\<exists>s'. lap_ir_body n rs g am (py_range n ! i) s = Inr s' \<and> ?I (Suc i) s'"
      using s i' by (simp add: py_range_def)
  qed
  then show ?thesis by (simp add: lap_vff_def py_range_def)
qed

lemma lap_row_Inr:
  assumes "length (rr ao) = nr ao" "length ff = nr ao"
  shows "lap_row ao dr ff am =
     Inr (map (\<lambda>ir. (4 * pi * dr) / (2 * of_int am + 1) * lap_sum (rr ao) ff am ir) [0..<nr ao])"
proof -
  let ?g = "map2 (*) ff (map (\<lambda>r. r ^ 3) (rr ao))"
  have g: "np_broadcast (*) ff (map (\<lambda>r. r ^ 3) (rr ao)) = Inr ?g"
    using assms by simp
  have vff: "lap_vff (nr ao) (rr ao) ?g am = Inr (map (lap_sum (rr ao) ff am) [0..<nr ao])"
    using assms by (simp add: lap_vff_Inr lap_sum_def)
  show ?thesis
    unfolding lap_row_def g bind_err_Inr vff by (simp add: o_def)
qed

subsection \<open>Iterating over multiplets and species\<close>

lemma lap_mult_row_step: "lap_mult ao dr sp = row_step (lap_row ao dr) ao sp"
  by (simp add: lap_mult_def row_step_def lap_row_def bind_err_assoc fun_eq_iff)

lemma lap_species_step: "lap_species ao dr = species_step (lap_row ao dr) ao"
  by (simp add: lap_species_def species_step_def lap_mult_row_step)

lemma sbt_mult_row_step: "sbt_mult sbt ao sp = row_step (sbt_row sbt ao) ao sp"
  by (simp add: sbt_mult_def row_step_def sbt_row_def bind_err_assoc fun_eq_iff)

lemma sbt_species_step: "sbt_species sbt ao = species_step (sbt_row sbt ao) ao"
  by (simp add: sbt_species_def species_step_def sbt_mult_row_step)

lemma wf_ao_rowD:
  assumes "wf_ao ao" "sp < nspecies ao" "mu < length (sp_mu2j ao ! sp)"
  shows "length (psi_log ao ! sp) = length (sp_mu2j ao ! sp)"
    and "length (psi_log_rl ao ! sp) = length (sp_mu2j ao ! sp)"
    and "length (psi_log ao ! sp ! mu) = nr ao"
    and "length (psi_log_rl ao ! sp ! mu) = nr ao"
proof -
  have sp': "sp < length (sp_mu2j ao)" using assms by (simp add: wf_ao_def)
  have "map length (psi_log ao) = map length (sp_mu2j ao)" using assms by (simp add: wf_ao_def)
  from map_length_nth[OF this sp']
  show a: "length (psi_log ao ! sp) = length (sp_mu2j ao ! sp)" .
  have "map length (psi_log_rl ao) = map length (sp_mu2j ao)" using assms by (simp add: wf_ao_def)
  from map_length_nth[OF this sp']
  show b: "length (psi_log_rl ao ! sp) = length (sp_mu2j ao ! sp)" .
  show "length (psi_log ao ! sp ! mu) = nr ao"
    using assms a by (simp add: wf_ao_def list_all_length)
  show "length (psi_log_rl ao ! sp ! mu) = nr ao"
    using assms b by (simp add: wf_ao_def list_all_length)
qed

lemma store_rescaled_Inr:
  assumes "length (rr ao) = nr ao"
    and "sp < length (psi_log p)" "mu < length (psi_log p ! sp)" "length (psi_log p ! sp ! mu) = nr ao"
    and "sp < length (psi_log_rl p)" "mu < length (psi_log_rl p ! sp)" "length (psi_log_rl p ! sp ! mu) = nr ao"
  shows "store_rescaled ao sp mu am p =
     Inr (p\<lparr>psi_log_rl := (psi_log_rl p)[sp := (psi_log_rl p ! sp)[mu :=
               map2 (/) (psi_log p ! sp ! mu) (map (\<lambda>r. power_int r am) (rr ao))]]\<rparr>)"
  using assms by (simp add: store_rescaled_def get_row_Inr set_row_Inr)

lemma row_step_Inr:
  assumes F: "F ff am = Inr v" "length v = nr ao"
    and rs: "length (rr ao) = nr ao"
    and psi: "sp < length (psi_log p)" "mu < length (psi_log p ! sp)" "length (psi_log p ! sp ! mu) = nr ao"
    and rl: "sp < length (psi_log_rl p)" "mu < length (psi_log_rl p ! sp)" "length (psi_log_rl p ! sp ! mu) = nr ao"
  shows "row_step F ao sp (mu, ff, am) p =
     Inr (p\<lparr>psi_log := (psi_log p)[sp := (psi_log p ! sp)[mu := v]],
            psi_log_rl := (psi_log_rl p)[sp := (psi_log_rl p ! sp)[mu :=
               map2 (/) v (map (\<lambda>r. power_int r am) (rr ao))]]\<rparr>)"
proof -
  let ?p1 = "p\<lparr>psi_log := (psi_log p)[sp := (psi_log p ! sp)[mu := v]]\<rparr>"
  have s: "set_row (psi_log p) sp mu v = Inr ((psi_log p)[sp := (psi_log p ! sp)[mu := v]])"
    using F psi by (simp add: set_row_Inr)
  have "store_rescaled ao sp mu am ?p1 =
     Inr (?p1\<lparr>psi_log_rl := (psi_log_rl ?p1)[sp := (psi_log_rl ?p1 ! sp)[mu :=
               map2 (/) (psi_log ?p1 ! sp ! mu) (map (\<lambda>r. power_int r am) (rr ao))]]\<rparr>)"
    by (rule store_rescaled_Inr) (use F rs psi rl in simp_all)
  then show ?thesis
    using psi by (simp add: row_step_def F s)
qed

lemma species_step_Inr:
  assumes wf: "wf_ao ao" and sp: "sp < nspecies ao"
    and F: "\<And>mu. mu < length (sp_mu2j ao ! sp) \<Longrightarrow>
              F (psi_log ao ! sp ! mu) (sp_mu2j ao ! sp ! mu) = Inr (V sp mu) \<and> length (V sp mu) = nr ao"
    and p: "length (psi_log p) = nspecies ao" "psi_log p ! sp = psi_log ao ! sp"
           "length (psi_log_rl p) = nspecies ao" "psi_log_rl p ! sp = psi_log_rl ao ! sp"
  shows "species_step F ao (sp, psi_log ao ! sp) p =
     Inr (p\<lparr>psi_log := (psi_log p)[sp := map (V sp) [0..<length (sp_mu2j ao ! sp)]],
            psi_log_rl := (psi_log_rl p)[sp := map (\<lambda>mu. rescale ao sp mu (V sp mu)) [0..<length (sp_mu2j ao ! sp)]]\<rparr>)"
proof -
  let ?n = "length (sp_mu2j ao ! sp)"
  let ?xs = "enumerate_list (zip (psi_log ao ! sp) (sp_mu2j ao ! sp))"
  let ?R = "\<lambda>mu. rescale ao sp mu (V sp mu)"
  let ?I = "\<lambda>k q. k \<le> ?n \<and> q = p\<lparr>psi_log := (psi_log p)[sp := map (V sp) [0..<k] @ drop k (psi_log ao ! sp)],
            psi_log_rl := (psi_log_rl p)[sp := map ?R [0..<k] @ drop k (psi_log_rl ao ! sp)]\<rparr>"
  have sp': "sp < length (sp_mu2j ao)" using wf sp by (simp add: wf_ao_def)
  have m1: "map length (psi_log ao) = map length (sp_mu2j ao)"
    and m2: "map length (psi_log_rl ao) = map length (sp_mu2j ao)" using wf by (simp_all add: wf_ao_def)
  have len: "length (psi_log ao ! sp) = ?n" "length (psi_log_rl ao ! sp) = ?n"
    using map_length_nth[OF m1 sp'] map_length_nth[OF m2 sp'] by blast+
  have rs: "length (rr ao) = nr ao" using wf by (simp add: wf_ao_def)
  have lxs: "length ?xs = ?n" using len by (simp add: enumerate_list_def)
  have "\<exists>s'. for_each ?xs (row_step F ao sp) p = Inr s' \<and> ?I (length ?xs) s'"
  proof (rule for_each_rule)
    have "p = p\<lparr>psi_log := (psi_log p)[sp := psi_log ao ! sp], psi_log_rl := (psi_log_rl p)[sp := psi_log_rl ao ! sp]\<rparr>"
      using p(2,4)[symmetric] by simp
    then show "?I 0 p" by simp
  next
    fix i q assume i: "i < length ?xs" and q: "?I i q"
    from i lxs have i': "i < ?n" by simp
    have xi: "?xs ! i = (i, psi_log ao ! sp ! i, sp_mu2j ao ! sp ! i)"
      using i' len by (simp add: enumerate_list_def)
    note rows = wf_ao_rowD[OF wf sp i']
    note Fi = F[OF i']
    have q1: "psi_log q = (psi_log p)[sp := map (V sp) [0..<i] @ drop i (psi_log ao ! sp)]"
      and q2: "psi_log_rl q = (psi_log_rl p)[sp := map ?R [0..<i] @ drop i (psi_log_rl ao ! sp)]"
      using q by simp_all
    have c1: "sp < length (psi_log q)" "sp < length (psi_log_rl q)"
      using q1 q2 p sp by simp_all
    have r1: "psi_log q ! sp = map (V sp) [0..<i] @ drop i (psi_log ao ! sp)"
      and r2: "psi_log_rl q ! sp = map ?R [0..<i] @ drop i (psi_log_rl ao ! sp)"
      using q1 q2 p sp by simp_all
    have c2: "i < length (psi_log q ! sp)" "i < length (psi_log_rl q ! sp)"
      using r1 r2 len i' by simp_all
    have c3: "length (psi_log q ! sp ! i) = nr ao" "length (psi_log_rl q ! sp ! i) = nr ao"
      using r1 r2 len i' rows by (simp_all add: nth_append)
    have step: "row_step F ao sp (i, psi_log ao ! sp ! i, sp_mu2j ao ! sp ! i) q =
       Inr (q\<lparr>psi_log := (psi_log q)[sp := (psi_log q ! sp)[i := V sp i]],
              psi_log_rl := (psi_log_rl q)[sp := (psi_log_rl q ! sp)[i := ?R i]]\<rparr>)"
      using row_step_Inr[where F = F and ff = "psi_log ao ! sp ! i" and am = "sp_mu2j ao ! sp ! i"
                           and v = "V sp i" and ao = ao and sp = sp and mu = i and p = q,
                         OF conjunct1[OF Fi] conjunct2[OF Fi] rs c1(1) c2(1) c3(1) c1(2) c2(2) c3(2)]
      by (simp add: rescale_def)
    have u1: "(map (V sp) [0..<i] @ drop i (psi_log ao ! sp))[i := V sp i]
              = map (V sp) [0..<Suc i] @ drop (Suc i) (psi_log ao ! sp)"
      using snoc_update_drop[of "map (V sp) [0..<i]" i "psi_log ao ! sp"] i' len by simp
    have u2: "(map ?R [0..<i] @ drop i (psi_log_rl ao ! sp))[i := ?R i]
              = map ?R [0..<Suc i] @ drop (Suc i) (psi_log_rl ao ! sp)"
      using snoc_update_drop[of "map ?R [0..<i]" i "psi_log_rl ao ! sp"] i' len by simp
    have v1: "(psi_log q)[sp := (psi_log q ! sp)[i := V sp i]]
              = (psi_log p)[sp := map (V sp) [0..<Suc i] @ drop (Suc i) (psi_log ao ! sp)]"
      unfolding r1 u1 by (simp add: q1)
    have v2: "(psi_log_rl q)[sp := (psi_log_rl q ! sp)[i := ?R i]]
              = (psi_log_rl p)[sp := map ?R [0..<Suc i] @ drop (Suc i) (psi_log_rl ao ! sp)]"
      unfolding r2 u2 by (simp add: q2)
    show "\<exists>s'. row_step F ao sp (?xs ! i) q = Inr s' \<and> ?I (Suc i) s'"
      unfolding xi step v1 v2 using i' q by simp
  qed
  then have "for_each ?xs (row_step F ao sp) p =
     Inr (p\<lparr>psi_log := (psi_log p)[sp := map (V sp) [0..<?n]],
            psi_log_rl := (psi_log_rl p)[sp := map ?R [0..<?n]]\<rparr>)"
    using lxs len by simp
  then show ?thesis
    using sp' by (simp add: species_step_def)
qed

lemma species_loop:
  assumes wf: "wf_ao ao"
    and F: "\<And>sp mu. sp < nspecies ao \<Longrightarrow> mu < length (sp_mu2j ao ! sp) \<Longrightarrow>
              F (psi_log ao ! sp ! mu) (sp_mu2j ao ! sp ! mu) = Inr (V sp mu) \<and> length (V sp mu) = nr ao"
  shows "for_each (enumerate_list (psi_log ao)) (species_step F ao) ao =
     Inr (ao\<lparr>psi_log := rows_of V ao, psi_log_rl := rescaled_rows_of V ao\<rparr>)"
proof -
  let ?n = "nspecies ao"
  let ?xs = "enumerate_list (psi_log ao)"
  let ?V = "\<lambda>sp. map (V sp) [0..<length (sp_mu2j ao ! sp)]"
  let ?R = "\<lambda>sp. map (\<lambda>mu. rescale ao sp mu (V sp mu)) [0..<length (sp_mu2j ao ! sp)]"
  let ?I = "\<lambda>k q. k \<le> ?n \<and> q = ao\<lparr>psi_log := map ?V [0..<k] @ drop k (psi_log ao),
                                    psi_log_rl := map ?R [0..<k] @ drop k (psi_log_rl ao)\<rparr>"
  have len: "length (psi_log ao) = ?n" "length (psi_log_rl ao) = ?n"
    using wf by (simp_all add: wf_ao_def)
  have lxs: "length ?xs = ?n" using len by (simp add: enumerate_list_def)
  have "\<exists>s'. for_each ?xs (species_step F ao) ao = Inr s' \<and> ?I (length ?xs) s'"
  proof (rule for_each_rule)
    show "?I 0 ao" by simp
  next
    fix i q assume i: "i < length ?xs" and q: "?I i q"
    from i lxs have i': "i < ?n" by simp
    have xi: "?xs ! i = (i, psi_log ao ! i)"
      using i' len by (simp add: enumerate_list_def)
    have q1: "psi_log q = map ?V [0..<i] @ drop i (psi_log ao)"
      and q2: "psi_log_rl q = map ?R [0..<i] @ drop i (psi_log_rl ao)"
      using q by simp_all
    have c: "length (psi_log q) = ?n" "psi_log q ! i = psi_log ao ! i"
            "length (psi_log_rl q) = ?n" "psi_log_rl q ! i = psi_log_rl ao ! i"
      using q1 q2 len i' by (simp_all add: nth_append)
    have u1: "(psi_log q)[i := ?V i] = map ?V [0..<Suc i] @ drop (Suc i) (psi_log ao)"
      unfolding q1 using snoc_update_drop[of "map ?V [0..<i]" i "psi_log ao" "?V i"] i' len by simp
    have u2: "(psi_log_rl q)[i := ?R i] = map ?R [0..<Suc i] @ drop (Suc i) (psi_log_rl ao)"
      unfolding q2 using snoc_update_drop[of "map ?R [0..<i]" i "psi_log_rl ao" "?R i"] i' len by simp
    have step: "species_step F ao (i, psi_log ao ! i) q =
        Inr (q\<lparr>psi_log := (psi_log q)[i := ?V i], psi_log_rl := (psi_log_rl q)[i := ?R i]\<rparr>)"
      by (rule species_step_Inr[where F = F and V = V and ao = ao and sp = i and p = q,
                                OF wf i' F[OF i'] c])
    show "\<exists>s'. species_step F ao (?xs ! i) q = Inr s' \<and> ?I (Suc i) s'"
      unfolding xi step u1 u2 using i' q by simp
  qed
  then show ?thesis
    using lxs len by (simp add: rows_of_def rescaled_rows_of_def)
qed

lemma fill_rcut_Inr:
  assumes "rr ao \<noteq> []" "nspecies ao = length (sp_mu2rcut p)"
  shows "fill_rcut ao p = Inr (rcut_reset ao p)"
proof -
  let ?n = "nspecies ao"
  let ?f = "\<lambda>c. replicate (length c) (last (rr ao))"
  let ?I = "\<lambda>k q. k \<le> ?n \<and> q = p\<lparr>sp_mu2rcut := map ?f (take k (sp_mu2rcut p)) @ drop k (sp_mu2rcut p)\<rparr>"
  have "\<exists>s'. for_each (py_range ?n) (fill_sp_mu2rcut ao) p = Inr s' \<and> ?I (length (py_range ?n)) s'"
  proof (rule for_each_rule)
    show "?I 0 p" by simp
  next
    fix i q assume i: "i < length (py_range ?n)" and q: "?I i q"
    from i have i': "i < ?n" by (simp add: py_range_def)
    have q1: "sp_mu2rcut q = map ?f (take i (sp_mu2rcut p)) @ drop i (sp_mu2rcut p)"
      using q by simp
    have c: "i < length (sp_mu2rcut q)" "sp_mu2rcut q ! i = sp_mu2rcut p ! i"
      using q1 i' assms(2) by (simp_all add: nth_append)
    have u: "(sp_mu2rcut q)[i := ?f (sp_mu2rcut p ! i)] =
             map ?f (take (Suc i) (sp_mu2rcut p)) @ drop (Suc i) (sp_mu2rcut p)"
      unfolding q1
      using snoc_update_drop[of "map ?f (take i (sp_mu2rcut p))" i "sp_mu2rcut p" "?f (sp_mu2rcut p ! i)"] i' assms(2)
      by (simp add: take_Suc_conv_app_nth)
    have "fill_sp_mu2rcut ao i q = Inr (q\<lparr>sp_mu2rcut := (sp_mu2rcut q)[i := ?f (sp_mu2rcut p ! i)]\<rparr>)"
      using c assms(1) by (simp add: fill_sp_mu2rcut_def)
    then show "\<exists>s'. fill_sp_mu2rcut ao (py_range ?n ! i) q = Inr s' \<and> ?I (Suc i) s'"
      unfolding u using i' q by (simp add: py_range_def)
  qed
  then show ?thesis
    using assms by (simp add: fill_rcut_def py_range_def rcut_reset_def)
qed

lemma ao_log_hartree_lap_wf:
  assumes wf: "wf_ao ao"
  shows "ao_log_hartree_lap ao = Inr (lap_result ao)"
proof -
  let ?dr = "ln (rr ao ! 1 / rr ao ! 0)"
  have n: "1 < length (rr ao)" "0 < length (rr ao)" "rr ao \<noteq> []"
    using wf by (auto simp: wf_ao_def)
  have rs: "length (rr ao) = nr ao" using wf by (simp add: wf_ao_def)
  have s: "nspecies ao = length (sp_mu2rcut ao)" using wf by (simp add: wf_ao_def)
  have g: "np_get (rr ao) 1 = Inr (rr ao ! 1)" "np_get (rr ao) 0 = Inr (rr ao ! 0)"
    using n by (simp_all add: np_get_def)
  have loop: "for_each (enumerate_list (psi_log ao)) (species_step (lap_row ao ?dr) ao) ao =
     Inr (ao\<lparr>psi_log := rows_of (lap_psi ao) ao, psi_log_rl := rescaled_rows_of (lap_psi ao) ao\<rparr>)"
  proof (rule species_loop[OF wf])
    fix sp mu assume sp: "sp < nspecies ao" and mu: "mu < length (sp_mu2j ao ! sp)"
    note rows = wf_ao_rowD[OF wf sp mu]
    show "lap_row ao ?dr (psi_log ao ! sp ! mu) (sp_mu2j ao ! sp ! mu) = Inr (lap_psi ao sp mu) \<and>
          length (lap_psi ao sp mu) = nr ao"
      using lap_row_Inr[OF rs rows(3), of ?dr "sp_mu2j ao ! sp ! mu"] rs by (simp add: lap_psi_def)
  qed
  have "ao_log_hartree_lap ao =
        fill_rcut ao (ao\<lparr>psi_log := rows_of (lap_psi ao) ao, psi_log_rl := rescaled_rows_of (lap_psi ao) ao\<rparr>)"
    unfolding ao_log_hartree_lap_def Let_def g bind_err_Inr lap_species_step loop ..
  also have "\<dots> = Inr (lap_result ao)"
    using n s by (simp add: fill_rcut_Inr lap_result_def)
  finally show ?thesis .
qed

subsection \<open>Reading the result of the direct quadrature\<close>

lemma rows_of_nth:
  "sp < nspecies ao \<Longrightarrow> mu < length (sp_mu2j ao ! sp) \<Longrightarrow> rows_of V ao ! sp ! mu = V sp mu"
  by (simp add: rows_of_def)

lemma psi_log_lap_result:
  "sp < nspecies ao \<Longrightarrow> mu < length (sp_mu2j ao ! sp) \<Longrightarrow>
   psi_log (lap_result ao) ! sp ! mu = lap_psi ao sp mu"
  by (simp add: lap_result_def rcut_reset_def rows_of_nth)

lemma wf_ao_example: "wf_ao ao_example"
  by (simp add: wf_ao_def ao_example_def)

subsection \<open>The transform solver in closed form\<close>

lemma sbt_row_Inr:
  assumes e: "engine_contract sbt (nr ao) lmax" and am: "0 \<le> am" "am \<le> lmax"
    and pp: "length (pp ao) = nr ao" and ff: "length ff = nr ao"
  shows "\<exists>fp v. sbt ff am 1 = Inr fp \<and> length fp = nr ao \<and>
           sbt (map2 (/) fp (map (\<lambda>p. p ^ 2) (pp ao))) am (- 1) = Inr v \<and> length v = nr ao \<and>
           sbt_row sbt ao ff am = Inr (map (\<lambda>x. (4 * pi) * x) v)"
proof -
  from e ff am obtain fp where fp: "sbt ff am 1 = Inr fp" "length fp = nr ao"
    unfolding engine_contract_def by blast
  let ?gp = "map2 (/) fp (map (\<lambda>p. p ^ 2) (pp ao))"
  have "length ?gp = nr ao" using fp pp by simp
  with e am obtain v where v: "sbt ?gp am (- 1) = Inr v" "length v = nr ao"
    unfolding engine_contract_def by blast
  have b: "np_broadcast (/) fp (map (\<lambda>p. p ^ 2) (pp ao)) = Inr ?gp"
    using fp pp by simp
  have "sbt_row sbt ao ff am = Inr (map (\<lambda>x. (4 * pi) * x) v)"
    unfolding sbt_row_def fp(1) bind_err_Inr b v(1) ..
  with fp v show ?thesis by blast
qed

lemma wf_jmxD:
  assumes "wf_jmx ao" "sp < length (sp_mu2j ao)" "mu < length (sp_mu2j ao ! sp)"
  shows "0 \<le> sp_mu2j ao ! sp ! mu" and "sp_mu2j ao ! sp ! mu \<le> jmx ao"
  using assms by (simp_all add: wf_jmx_def list_all_length)

lemma sbt_loop:
  assumes wf: "wf_ao ao" and e: "engine_contract sbt (nr ao) (jmx ao)" and wj: "wf_jmx ao"
    and pp: "length (pp ao) = nr ao"
  shows "for_each (enumerate_list (psi_log ao)) (sbt_species sbt ao) ao =
     Inr (ao\<lparr>psi_log := rows_of (sbt_psi sbt ao) ao, psi_log_rl := rescaled_rows_of (sbt_psi sbt ao) ao\<rparr>)"
  unfolding sbt_species_step
proof (rule species_loop[OF wf])
  fix sp mu assume sp: "sp < nspecies ao" and mu: "mu < length (sp_mu2j ao ! sp)"
  note rows = wf_ao_rowD[OF wf sp mu]
  have sl: "sp < length (sp_mu2j ao)" using wf sp by (simp add: wf_ao_def)
  from sbt_row_Inr[OF e wf_jmxD[OF wj sl mu] pp rows(3)]
  obtain v where "length v = nr ao"
    "sbt_row sbt ao (psi_log ao ! sp ! mu) (sp_mu2j ao ! sp ! mu) = Inr (map (\<lambda>x. (4 * pi) * x) v)"
    by blast
  then show "sbt_row sbt ao (psi_log ao ! sp ! mu) (sp_mu2j ao ! sp ! mu) = Inr (sbt_psi sbt ao sp mu) \<and>
        length (sbt_psi sbt ao sp mu) = nr ao"
    by (simp add: sbt_psi_def)
qed

lemma ao_log_hartree_sbt_wf:
  assumes wf: "wf_ao ao" and c: "sbt_c (rr ao) (pp ao) (jmx ao) = Inr sbt"
    and e: "engine_contract sbt (nr ao) (jmx ao)" and wj: "wf_jmx ao"
    and pp: "length (pp ao) = nr ao"
  shows "ao_log_hartree_sbt sbt_c ao = Inr (sbt_result sbt ao)"
proof -
  have n: "rr ao \<noteq> []" using wf by (auto simp: wf_ao_def)
  have s: "nspecies ao = length (sp_mu2rcut ao)" using wf by (simp add: wf_ao_def)
  have "ao_log_hartree_sbt sbt_c ao =
        fill_rcut ao (ao\<lparr>psi_log := rows_of (sbt_psi sbt ao) ao, psi_log_rl := rescaled_rows_of (sbt_psi sbt ao) ao\<rparr>)"
    unfolding ao_log_hartree_sbt_def Let_def c bind_err_Inr sbt_loop[OF wf e wj pp] ..
  also have "\<dots> = Inr (sbt_result sbt ao)"
    using n s by (simp add: fill_rcut_Inr sbt_result_def)
  finally show ?thesis .
qed

subsection \<open>The library-backed solver in closed form\<close>

lemma map_map_length_nth:
  assumes "map (map length) xs = map (map length) ys" "i < length ys"
  shows "map length (xs ! i) = map length (ys ! i)"
proof -
  from assms(1) have l: "length xs = length ys" by (rule map_eq_imp_length_eq)
  have "map (map length) xs ! i = map (map length) ys ! i" using assms(1) by simp
  then show ?thesis using assms(2) l by simp
qed

lemma same_shape_rowD:
  assumes wf: "wf_ao ao" and sh: "same_shape p ao" and sp: "sp < nspecies ao"
  shows "length (psi_log p) = nspecies ao"
    and "length (psi_log_rl p) = nspecies ao"
    and "length (psi_log p ! sp) = length (sp_mu2j ao ! sp)"
    and "length (psi_log_rl p ! sp) = length (sp_mu2j ao ! sp)"
    and "\<And>mu. mu < length (sp_mu2j ao ! sp) \<Longrightarrow> length (psi_log p ! sp ! mu) = nr ao"
    and "\<And>mu. mu < length (sp_mu2j ao ! sp) \<Longrightarrow> length (psi_log_rl p ! sp ! mu) = nr ao"
proof -
  have a: "map (map length) (psi_log p) = map (map length) (psi_log ao)"
    and b: "map (map length) (psi_log_rl p) = map (map length) (psi_log_rl ao)"
    using sh by (simp_all add: same_shape_def)
  have la: "length (psi_log ao) = nspecies ao" and lb: "length (psi_log_rl ao) = nspecies ao"
    using wf by (simp_all add: wf_ao_def)
  from a la show "length (psi_log p) = nspecies ao" by (metis length_map)
  from b lb show "length (psi_log_rl p) = nspecies ao" by (metis length_map)
  have sa: "sp < length (psi_log ao)" and sb: "sp < length (psi_log_rl ao)" using sp la lb by simp_all
  note ma = map_map_length_nth[OF a sa] and mb = map_map_length_nth[OF b sb]
  have sp': "sp < length (sp_mu2j ao)" using wf sp by (simp add: wf_ao_def)
  have m1: "map length (psi_log ao) = map length (sp_mu2j ao)"
    and m2: "map length (psi_log_rl ao) = map length (sp_mu2j ao)" using wf by (simp_all add: wf_ao_def)
  note n1 = map_length_nth[OF m1 sp'] and n2 = map_length_nth[OF m2 sp']
  from ma n1 show c: "length (psi_log p ! sp) = length (sp_mu2j ao ! sp)" by (metis length_map)
  from mb n2 show d: "length (psi_log_rl p ! sp) = length (sp_mu2j ao ! sp)" by (metis length_map)
  {
    fix mu assume mu: "mu < length (sp_mu2j ao ! sp)"
    note rows = wf_ao_rowD[OF wf sp mu]
    have "map length (psi_log p ! sp) ! mu = map length (psi_log ao ! sp) ! mu" using ma by simp
    then show "length (psi_log p ! sp ! mu) = nr ao" using c rows mu by simp
    have "map length (psi_log_rl p ! sp) ! mu = map length (psi_log_rl ao ! sp) ! mu" using mb by simp
    then show "length (psi_log_rl p ! sp ! mu) = nr ao" using d rows mu by simp
  }
qed

lemma rescale_loop:
  assumes rs: "length (rr ao) = nr ao"
    and psi: "sp < length (psi_log q)" "length (psi_log q ! sp) = length mu2j"
             "\<And>mu. mu < length mu2j \<Longrightarrow> length (psi_log q ! sp ! mu) = nr ao"
    and rl: "sp < length (psi_log_rl q)" "length (psi_log_rl q ! sp) = length mu2j"
             "\<And>mu. mu < length mu2j \<Longrightarrow> length (psi_log_rl q ! sp ! mu) = nr ao"
  shows "for_each (enumerate_list mu2j) (\<lambda>(mu, am). store_rescaled ao sp mu am) q =
     Inr (q\<lparr>psi_log_rl := (psi_log_rl q)[sp :=
             map (\<lambda>mu. map2 (/) (psi_log q ! sp ! mu) (map (\<lambda>r. power_int r (mu2j ! mu)) (rr ao)))
                 [0..<length mu2j]]\<rparr>)"
proof -
  let ?n = "length mu2j"
  let ?xs = "enumerate_list mu2j"
  let ?R = "\<lambda>mu. map2 (/) (psi_log q ! sp ! mu) (map (\<lambda>r. power_int r (mu2j ! mu)) (rr ao))"
  let ?I = "\<lambda>k s. k \<le> ?n \<and> s = q\<lparr>psi_log_rl := (psi_log_rl q)[sp := map ?R [0..<k] @ drop k (psi_log_rl q ! sp)]\<rparr>"
  have lxs: "length ?xs = ?n" by (simp add: enumerate_list_def)
  have "\<exists>s'. for_each ?xs (\<lambda>(mu, am). store_rescaled ao sp mu am) q = Inr s' \<and> ?I (length ?xs) s'"
  proof (rule for_each_rule)
    show "?I 0 q" by simp
  next
    fix i s assume i: "i < length ?xs" and s: "?I i s"
    from i lxs have i': "i < ?n" by simp
    have xi: "?xs ! i = (i, mu2j ! i)" using i' by (simp add: enumerate_list_def)
    have s1: "psi_log s = psi_log q"
      and s2: "psi_log_rl s = (psi_log_rl q)[sp := map ?R [0..<i] @ drop i (psi_log_rl q ! sp)]"
      using s by simp_all
    have r2: "psi_log_rl s ! sp = map ?R [0..<i] @ drop i (psi_log_rl q ! sp)"
      using s2 rl(1) by simp
    have c: "sp < length (psi_log s)" "i < length (psi_log s ! sp)" "length (psi_log s ! sp ! i) = nr ao"
      "sp < length (psi_log_rl s)" "i < length (psi_log_rl s ! sp)" "length (psi_log_rl s ! sp ! i) = nr ao"
      using s1 s2 r2 psi rl i' by (simp_all add: nth_append)
    have step: "store_rescaled ao sp i (mu2j ! i) s =
        Inr (s\<lparr>psi_log_rl := (psi_log_rl s)[sp := (psi_log_rl s ! sp)[i := ?R i]]\<rparr>)"
      using store_rescaled_Inr[OF rs c, of "mu2j ! i"] by (simp add: s1)
    have u: "(map ?R [0..<i] @ drop i (psi_log_rl q ! sp))[i := ?R i]
              = map ?R [0..<Suc i] @ drop (Suc i) (psi_log_rl q ! sp)"
      using snoc_update_drop[of "map ?R [0..<i]" i "psi_log_rl q ! sp"] i' rl(2) by simp
    have v: "(psi_log_rl s)[sp := (psi_log_rl s ! sp)[i := ?R i]]
              = (psi_log_rl q)[sp := map ?R [0..<Suc i] @ drop (Suc i) (psi_log_rl q ! sp)]"
      unfolding r2 u by (simp add: s2)
    show "\<exists>s'. (\<lambda>(mu, am). store_rescaled ao sp mu am) (?xs ! i) s = Inr s' \<and> ?I (Suc i) s'"
      unfolding xi prod.case step v using i' s by simp
  qed
  then show ?thesis using lxs rl(2) by simp
qed

lemma libnao_species_Inr:
  assumes wf: "wf_ao ao" and sh: "same_shape p ao" and rc: "routine_contract f"
    and nm: "nspecies ao \<le> length (sp2nmult ao)" and sp: "sp < nspecies ao"
    and q: "length (psi_log q) = nspecies ao" "psi_log q ! sp = psi_log p ! sp"
           "length (psi_log_rl q) = nspecies ao" "psi_log_rl q ! sp = psi_log_rl p ! sp"
  shows "libnao_species f ao sp q =
     Inr (q\<lparr>psi_log := (psi_log q)[sp := libnao_pot f ao p sp],
            psi_log_rl := (psi_log_rl q)[sp :=
               map (\<lambda>mu. rescale ao sp mu (libnao_pot f ao p sp ! mu)) [0..<length (sp_mu2j ao ! sp)]]\<rparr>)"
proof -
  let ?mu2j = "sp_mu2j ao ! sp"
  let ?out = "libnao_pot f ao p sp"
  let ?q1 = "q\<lparr>psi_log := (psi_log q)[sp := ?out]\<rparr>"
  note shp = same_shape_rowD[OF wf sh sp]
  have rs: "length (rr ao) = nr ao" using wf by (simp add: wf_ao_def)
  have g: "np_get (sp_mu2j ao) sp = Inr ?mu2j" "np_get (psi_log ao) sp = Inr (psi_log ao ! sp)"
    "np_get (psi_log q) sp = Inr (psi_log p ! sp)" "np_get (sp2nmult ao) sp = Inr (sp2nmult ao ! sp)"
    using wf sp q nm by (simp_all add: wf_ao_def)
  from rc obtain out where out:
    "f (rr ao) (sp2nmult ao ! sp) (psi_log ao ! sp) (nr ao) ?mu2j (psi_log p ! sp) = Inr out"
    "map length out = map length (psi_log p ! sp)"
    unfolding routine_contract_def by blast
  have o: "?out = out" using out(1) by (simp add: libnao_pot_def)
  have lo: "length ?out = length ?mu2j" using out(2) shp(3) o by (metis length_map)
  have ro: "\<And>mu. mu < length ?mu2j \<Longrightarrow> length (?out ! mu) = nr ao"
  proof -
    fix mu assume mu: "mu < length ?mu2j"
    have "map length out ! mu = map length (psi_log p ! sp) ! mu" using out(2) by simp
    then show "length (?out ! mu) = nr ao" using mu lo o shp(3) shp(5)[OF mu] by simp
  qed
  have loop: "for_each (enumerate_list ?mu2j) (\<lambda>(mu, am). store_rescaled ao sp mu am) ?q1 =
     Inr (?q1\<lparr>psi_log_rl := (psi_log_rl ?q1)[sp :=
             map (\<lambda>mu. map2 (/) (psi_log ?q1 ! sp ! mu) (map (\<lambda>r. power_int r (?mu2j ! mu)) (rr ao)))
                 [0..<length ?mu2j]]\<rparr>)"
  proof (rule rescale_loop[OF rs])
    show "sp < length (psi_log ?q1)" using q sp by simp
    show "length (psi_log ?q1 ! sp) = length ?mu2j" using q sp lo by simp
    show "\<And>mu. mu < length ?mu2j \<Longrightarrow> length (psi_log ?q1 ! sp ! mu) = nr ao" using q sp ro by simp
    show "sp < length (psi_log_rl ?q1)" using q sp by simp
    show "length (psi_log_rl ?q1 ! sp) = length ?mu2j" using q shp(4) by simp
    show "\<And>mu. mu < length ?mu2j \<Longrightarrow> length (psi_log_rl ?q1 ! sp ! mu) = nr ao" using q shp(6) by simp
  qed
  have "libnao_species f ao sp q =
        for_each (enumerate_list ?mu2j) (\<lambda>(mu, am). store_rescaled ao sp mu am) ?q1"
    unfolding libnao_species_def g bind_err_Inr out(1) Let_def o ..
  then show ?thesis
    unfolding loop using q sp by (simp add: rescale_def)
qed

lemma same_shape_len:
  assumes wf: "wf_ao ao" and sh: "same_shape p ao"
  shows "length (psi_log p) = nspecies ao" and "length (psi_log_rl p) = nspecies ao"
proof -
  have a: "map (map length) (psi_log p) = map (map length) (psi_log ao)"
    and b: "map (map length) (psi_log_rl p) = map (map length) (psi_log_rl ao)"
    using sh by (simp_all add: same_shape_def)
  have la: "length (psi_log ao) = nspecies ao" and lb: "length (psi_log_rl ao) = nspecies ao"
    using wf by (simp_all add: wf_ao_def)
  from a la show "length (psi_log p) = nspecies ao" by (metis length_map)
  from b lb show "length (psi_log_rl p) = nspecies ao" by (metis length_map)
qed

lemma libnao_loop:
  assumes wf: "wf_ao ao" and sh: "same_shape p ao" and rc: "routine_contract f"
    and nm: "nspecies ao \<le> length (sp2nmult ao)"
  shows "for_each (py_range (nspecies ao)) (libnao_species f ao) p =
     Inr (p\<lparr>psi_log := map (libnao_pot f ao p) [0..<nspecies ao],
            psi_log_rl := rescaled_rows_of (\<lambda>sp mu. libnao_pot f ao p sp ! mu) ao\<rparr>)"
proof -
  let ?n = "nspecies ao"
  let ?V = "libnao_pot f ao p"
  let ?R = "\<lambda>sp. map (\<lambda>mu. rescale ao sp mu (libnao_pot f ao p sp ! mu)) [0..<length (sp_mu2j ao ! sp)]"
  let ?I = "\<lambda>k q. k \<le> ?n \<and> q = p\<lparr>psi_log := map ?V [0..<k] @ drop k (psi_log p),
                                   psi_log_rl := map ?R [0..<k] @ drop k (psi_log_rl p)\<rparr>"
  have "\<exists>s'. for_each (py_range ?n) (libnao_species f ao) p = Inr s' \<and> ?I (length (py_range ?n)) s'"
  proof (rule for_each_rule)
    show "?I 0 p" by simp
  next
    fix i q assume i: "i < length (py_range ?n)" and q: "?I i q"
    from i have i': "i < ?n" by (simp add: py_range_def)
    note shp = same_shape_len[OF wf sh]
    have q1: "psi_log q = map ?V [0..<i] @ drop i (psi_log p)"
      and q2: "psi_log_rl q = map ?R [0..<i] @ drop i (psi_log_rl p)"
      using q by simp_all
    have c: "length (psi_log q) = ?n" "psi_log q ! i = psi_log p ! i"
            "length (psi_log_rl q) = ?n" "psi_log_rl q ! i = psi_log_rl p ! i"
      using q1 q2 shp i' by (simp_all add: nth_append)
    have u1: "(psi_log q)[i := ?V i] = map ?V [0..<Suc i] @ drop (Suc i) (psi_log p)"
      unfolding q1 using snoc_update_drop[of "map ?V [0..<i]" i "psi_log p" "?V i"] i' shp by simp
    have u2: "(psi_log_rl q)[i := ?R i] = map ?R [0..<Suc i] @ drop (Suc i) (psi_log_rl p)"
      unfolding q2 using snoc_update_drop[of "map ?R [0..<i]" i "psi_log_rl p" "?R i"] i' shp by simp
    have step: "libnao_species f ao i q =
        Inr (q\<lparr>psi_log := (psi_log q)[i := ?V i], psi_log_rl := (psi_log_rl q)[i := ?R i]\<rparr>)"
      by (rule libnao_species_Inr[OF wf sh rc nm i' c])
    have pi: "py_range ?n ! i = i" using i' by (simp add: py_range_def)
    show "\<exists>s'. libnao_species f ao (py_range ?n ! i) q = Inr s' \<and> ?I (Suc i) s'"
      unfolding pi step u1 u2 using i' q by simp
  qed
  then show ?thesis
    using same_shape_len[OF wf sh]
    by (simp add: py_range_def rows_of_def rescaled_rows_of_def)
qed

lemma ao_log_hartree_lap_libnao_wf:
  assumes wf: "wf_ao ao" and new: "ao_log_new ao = Inr p" and sh: "same_shape p ao"
    and rc: "routine_contract f" and nm: "nspecies ao \<le> length (sp2nmult ao)"
  shows "ao_log_hartree_lap_libnao ao_log_new f ao = Inr (libnao_result f ao p)"
proof -
  have n: "rr ao \<noteq> []" using wf by (auto simp: wf_ao_def)
  have "map length (sp_mu2rcut p) = map length (sp_mu2rcut ao)" using sh by (simp add: same_shape_def)
  then have "length (sp_mu2rcut p) = length (sp_mu2rcut ao)" by (rule map_eq_imp_length_eq)
  then have s: "nspecies ao = length (sp_mu2rcut p)" using wf by (simp add: wf_ao_def)
  have "ao_log_hartree_lap_libnao ao_log_new f ao =
        fill_rcut ao (p\<lparr>psi_log := map (libnao_pot f ao p) [0..<nspecies ao],
                         psi_log_rl := rescaled_rows_of (\<lambda>sp mu. libnao_pot f ao p sp ! mu) ao\<rparr>)"
    unfolding ao_log_hartree_lap_libnao_def new bind_err_Inr libnao_loop[OF wf sh rc nm] ..
  also have "\<dots> = Inr (libnao_result f ao p)"
    using n s by (simp add: fill_rcut_Inr libnao_result_def)
  finally show ?thesis .
qed

subsection \<open>Cutoffs and rescaled rows of the results\<close>

lemma rcut_reset_fields [simp]:
  "psi_log (rcut_reset ao p) = psi_log p" "psi_log_rl (rcut_reset ao p) = psi_log_rl p"
  "sp_mu2rcut (rcut_reset ao p) = map (\<lambda>c. replicate (length c) (last (rr ao))) (sp_mu2rcut p)"
  "sp2rcut (rcut_reset ao p) = replicate (length (sp2rcut p)) (last (rr ao))"
  "nr (rcut_reset ao p) = nr p" "nspecies (rcut_reset ao p) = nspecies p"
  "rr (rcut_reset ao p) = rr p" "pp (rcut_reset ao p) = pp p" "jmx (rcut_reset ao p) = jmx p"
  "sp2nmult (rcut_reset ao p) = sp2nmult p" "sp_mu2j (rcut_reset ao p) = sp_mu2j p"
  by (simp_all add: rcut_reset_def)

lemma wf_ao_last:
  assumes "wf_ao ao"
  shows "last (rr ao) = rr ao ! (nr ao - 1)"
proof -
  have "rr ao \<noteq> []" "length (rr ao) = nr ao" using assms by (auto simp: wf_ao_def)
  then show ?thesis using last_conv_nth[of "rr ao"] by simp
qed

lemma cutoffs_reset_rcut_reset:
  assumes wf: "wf_ao ao" and s: "map length (sp_mu2rcut p) = map length (sp_mu2rcut ao)"
    "length (sp2rcut p) = length (sp2rcut ao)"
  shows "cutoffs_reset ao (rcut_reset ao p)"
proof -
  have l: "length (sp_mu2rcut p) = length (sp_mu2rcut ao)" using s(1) by (rule map_eq_imp_length_eq)
  have m: "map length (sp_mu2rcut ao) = map length (sp_mu2j ao)" using wf by (simp add: wf_ao_def)
  have "map length (map (\<lambda>c. replicate (length c) (last (rr ao))) (sp_mu2rcut p)) = map length (sp_mu2rcut p)"
    by (simp add: o_def)
  then show ?thesis
    using wf l s m wf_ao_last[OF wf]
    by (simp add: cutoffs_reset_def wf_ao_def list_all_iff)
qed

lemma example_contracts:
  "example_sbt_c (rr ao_example) (pp ao_example) (jmx ao_example) = Inr (example_engine (jmx ao_example))"
  "engine_contract (example_engine (jmx ao_example)) (nr ao_example) (jmx ao_example)"
  "wf_pp ao_example" "wf_jmx ao_example"
  "example_ao_log_new ao_example = Inr ao_example"
  "same_shape ao_example ao_example"
  "routine_contract example_routine"
  "nspecies ao_example \<le> length (sp2nmult ao_example)"
  by (simp_all add: example_sbt_c_def engine_contract_def example_engine_def wf_pp_def wf_jmx_def
      example_ao_log_new_def same_shape_def routine_contract_def example_routine_def ao_example_def)

lemma rescaled_rows_of_nth:
  assumes "sp < nspecies ao" "mu < length (sp_mu2j ao ! sp)" "ir < nr ao"
    and "length (rr ao) = nr ao" "length (V sp mu) = nr ao"
  shows "rescaled_rows_of V ao ! sp ! mu ! ir = V sp mu ! ir / power_int (rr ao ! ir) (sp_mu2j ao ! sp ! mu)"
  using assms by (simp add: rescaled_rows_of_def rows_of_def rescale_def)

lemma sbt_psi_length:
  assumes wf: "wf_ao ao" and e: "engine_contract sbt (nr ao) (jmx ao)" and wj: "wf_jmx ao"
    and pp: "length (pp ao) = nr ao"
    and sp: "sp < nspecies ao" and mu: "mu < length (sp_mu2j ao ! sp)"
  shows "length (sbt_psi sbt ao sp mu) = nr ao"
proof -
  note rows = wf_ao_rowD[OF wf sp mu]
  have sl: "sp < length (sp_mu2j ao)" using wf sp by (simp add: wf_ao_def)
  from sbt_row_Inr[OF e wf_jmxD[OF wj sl mu] pp rows(3)]
  obtain v where "length v = nr ao"
    "sbt_row sbt ao (psi_log ao ! sp ! mu) (sp_mu2j ao ! sp ! mu) = Inr (map (\<lambda>x. (4 * pi) * x) v)"
    by blast
  then show ?thesis by (simp add: sbt_psi_def)
qed

lemma libnao_pot_shape:
  assumes wf: "wf_ao ao" and sh: "same_shape p ao" and rc: "routine_contract f"
    and sp: "sp < nspecies ao"
  shows "length (libnao_pot f ao p sp) = length (sp_mu2j ao ! sp)"
    and "\<And>mu. mu < length (sp_mu2j ao ! sp) \<Longrightarrow> length (libnao_pot f ao p sp ! mu) = nr ao"
proof -
  let ?mu2j = "sp_mu2j ao ! sp"
  let ?out = "libnao_pot f ao p sp"
  note shp = same_shape_rowD[OF wf sh sp]
  from rc obtain out where out:
    "f (rr ao) (sp2nmult ao ! sp) (psi_log ao ! sp) (nr ao) ?mu2j (psi_log p ! sp) = Inr out"
    "map length out = map length (psi_log p ! sp)"
    unfolding routine_contract_def by blast
  have o: "?out = out" using out(1) by (simp add: libnao_pot_def)
  show lo: "length ?out = length ?mu2j" using out(2) shp(3) o by (metis length_map)
  fix mu assume mu: "mu < length ?mu2j"
  have "map length out ! mu = map length (psi_log p ! sp) ! mu" using out(2) by simp
  then show "length (?out ! mu) = nr ao" using mu lo o shp(3) shp(5)[OF mu] by simp
qed

subsection \<open>The frame of a result\<close>

lemma bind_err_InrD:
  "bind_err m f = Inr y \<Longrightarrow> \<exists>x. m = Inr x \<and> f x = Inr y"
  by (cases m) simp_all

lemma np_get_InrD: "np_get xs i = Inr x \<Longrightarrow> i < length xs \<and> x = xs ! i"
  by (simp add: np_get_def split: if_splits)

lemma set_row_shape:
  assumes "set_row a sp mu v = Inr a'"
  shows "map (map length) a' = map (map length) a"
proof -
  from assms obtain m where m: "np_get a sp = Inr m"
    and 1: "bind_err (np_get m mu) (\<lambda>row.
       if length v = length row then Inr (a[sp := m[mu := v]])
       else if length v = 1 then Inr (a[sp := m[mu := replicate (length row) (hd v)]])
       else Inl ValueError) = Inr a'"
    unfolding set_row_def by (blast dest: bind_err_InrD)
  from 1 obtain row where row: "np_get m mu = Inr row"
    and 2: "(if length v = length row then Inr (a[sp := m[mu := v]])
       else if length v = 1 then Inr (a[sp := m[mu := replicate (length row) (hd v)]])
       else Inl ValueError) = Inr a'"
    by (blast dest: bind_err_InrD)
  from np_get_InrD[OF m] have sp: "sp < length a" "m = a ! sp" by simp_all
  from np_get_InrD[OF row] have mu: "mu < length m" "row = m ! mu" by simp_all
  from 2 obtain w where w: "a' = a[sp := m[mu := w]]" "length w = length row"
    by (cases "length v = length row"; cases "length v = 1") auto
  have "map length (m[mu := w]) = map length m"
    using w(2) mu by (simp add: map_update list_update_same_conv)
  then have "map (map length) a' = (map (map length) a)[sp := map length m]"
    using w(1) by (simp add: map_update)
  then show ?thesis using sp by (simp add: list_update_same_conv)
qed

lemma same_frame_psi_log_rl:
  "same_frame q ao \<Longrightarrow> map (map length) rl = map (map length) (psi_log_rl q) \<Longrightarrow>
   same_frame (q\<lparr>psi_log_rl := rl\<rparr>) ao"
  by (simp add: same_frame_def)

lemma same_frame_psi_log:
  assumes "same_frame q ao" "map (map length) psi = map (map length) (psi_log q)"
  shows "same_frame (q\<lparr>psi_log := psi\<rparr>) ao"
proof -
  have "map length (map (map length) psi) = map length (map (map length) (psi_log q))"
    using assms(2) by simp
  then have "map length psi = map length (psi_log q)" by (simp add: o_def)
  moreover from this have "length psi = length (psi_log q)" by (rule map_eq_imp_length_eq)
  ultimately show ?thesis using assms by (simp add: same_frame_def)
qed

lemma store_rescaled_frame:
  assumes "store_rescaled ao sp mu am q = Inr q'" "same_frame q ao0"
  shows "same_frame q' ao0"
proof -
  from assms(1) obtain row where "get_row (psi_log q) sp mu = Inr row"
    and 1: "bind_err (np_broadcast (/) row (map (\<lambda>r. power_int r am) (rr ao))) (\<lambda>x.
     bind_err (set_row (psi_log_rl q) sp mu x) (\<lambda>rl.
       Inr (q\<lparr>psi_log_rl := rl\<rparr>))) = Inr q'"
    unfolding store_rescaled_def by (blast dest: bind_err_InrD)
  from 1 obtain x where 2: "bind_err (set_row (psi_log_rl q) sp mu x) (\<lambda>rl.
       Inr (q\<lparr>psi_log_rl := rl\<rparr>)) = Inr q'"
    by (blast dest: bind_err_InrD)
  from 2 obtain rl where rl: "set_row (psi_log_rl q) sp mu x = Inr rl" "q' = q\<lparr>psi_log_rl := rl\<rparr>"
    by (auto dest: bind_err_InrD)
  show ?thesis
    unfolding rl(2) using assms(2) set_row_shape[OF rl(1)] by (rule same_frame_psi_log_rl)
qed

lemma row_step_frame:
  assumes "row_step F ao sp x q = Inr q'" "same_frame q ao0"
  shows "same_frame q' ao0"
proof -
  obtain mu ff am where x: "x = (mu, ff, am)" by (cases x)
  from assms(1) obtain v where
    1: "bind_err (set_row (psi_log q) sp mu v) (\<lambda>psi.
       store_rescaled ao sp mu am (q\<lparr>psi_log := psi\<rparr>)) = Inr q'"
    unfolding row_step_def x prod.case by (blast dest: bind_err_InrD)
  from 1 obtain psi where psi: "set_row (psi_log q) sp mu v = Inr psi"
    "store_rescaled ao sp mu am (q\<lparr>psi_log := psi\<rparr>) = Inr q'"
    by (blast dest: bind_err_InrD)
  have "same_frame (q\<lparr>psi_log := psi\<rparr>) ao0"
    using assms(2) set_row_shape[OF psi(1)] by (rule same_frame_psi_log)
  with psi(2) show ?thesis by (rule store_rescaled_frame)
qed

lemma species_step_frame:
  assumes "species_step F ao x q = Inr q'" "same_frame q ao0"
  shows "same_frame q' ao0"
proof -
  obtain sp mu2ff where x: "x = (sp, mu2ff)" by (cases x)
  from assms(1) obtain mu2j where
    1: "for_each (enumerate_list (zip mu2ff mu2j)) (row_step F ao sp) q = Inr q'"
    unfolding species_step_def x prod.case by (blast dest: bind_err_InrD)
  show ?thesis
    by (rule for_each_preserves[where P = "\<lambda>s. same_frame s ao0", OF assms(2) _ 1])
       (rule row_step_frame)
qed

lemma species_loop_frame:
  assumes "for_each xs (species_step F ao) q = Inr q'" "same_frame q ao0"
  shows "same_frame q' ao0"
  by (rule for_each_preserves[where P = "\<lambda>s. same_frame s ao0", OF assms(2) _ assms(1)])
     (rule species_step_frame)

lemma fill_sp_mu2rcut_frame:
  assumes "fill_sp_mu2rcut ao sp q = Inr q'" "same_frame q ao0"
  shows "same_frame q' ao0"
proof -
  from assms(1) obtain c :: "real list" where 1: "bind_err (np_last (rr ao)) (\<lambda>rmax.
       Inr (q\<lparr>sp_mu2rcut := (sp_mu2rcut q)[sp := replicate (length c) rmax]\<rparr>)) = Inr q'"
    unfolding fill_sp_mu2rcut_def by (blast dest: bind_err_InrD)
  from 1 obtain rmax where "q' = q\<lparr>sp_mu2rcut := (sp_mu2rcut q)[sp := replicate (length c) rmax]\<rparr>"
    by (auto dest: bind_err_InrD)
  then show ?thesis using assms(2) by (simp add: same_frame_def)
qed

lemma fill_rcut_frame:
  assumes "fill_rcut ao q = Inr q'" "same_frame q ao0"
  shows "same_frame q' ao0"
proof -
  from assms(1) obtain q1 where q1: "for_each (py_range (nspecies ao)) (fill_sp_mu2rcut ao) q = Inr q1"
    and 1: "bind_err (np_last (rr ao)) (\<lambda>rmax.
       Inr (q1\<lparr>sp2rcut := replicate (length (sp2rcut q1)) rmax\<rparr>)) = Inr q'"
    unfolding fill_rcut_def by (blast dest: bind_err_InrD)
  have f1: "same_frame q1 ao0"
    by (rule for_each_preserves[where P = "\<lambda>s. same_frame s ao0", OF assms(2) _ q1])
       (rule fill_sp_mu2rcut_frame)
  from 1 obtain rmax where "q' = q1\<lparr>sp2rcut := replicate (length (sp2rcut q1)) rmax\<rparr>"
    by (auto dest: bind_err_InrD)
  then show ?thesis using f1 by (simp add: same_frame_def)
qed

lemma same_frame_refl: "same_frame ao ao"
  by (simp add: same_frame_def)

lemma ao_log_hartree_lap_frame:
  assumes "ao_log_hartree_lap ao = Inr pot"
  shows "same_frame pot ao"
proof -
  from assms obtain r1 where 1: "bind_err (np_get (rr ao) 0) (\<lambda>r0.
      let dr = ln (r1 / r0) in
      bind_err (for_each (enumerate_list (psi_log ao)) (lap_species ao dr) ao) (\<lambda>ao_pot.
        fill_rcut ao ao_pot)) = Inr pot"
    unfolding ao_log_hartree_lap_def Let_def by (blast dest: bind_err_InrD)
  from 1 obtain r0 where 2: "bind_err (for_each (enumerate_list (psi_log ao)) (lap_species ao (ln (r1 / r0))) ao)
      (\<lambda>ao_pot. fill_rcut ao ao_pot) = Inr pot"
    unfolding Let_def by (blast dest: bind_err_InrD)
  from 2 obtain q where q: "for_each (enumerate_list (psi_log ao)) (lap_species ao (ln (r1 / r0))) ao = Inr q"
    "fill_rcut ao q = Inr pot"
    by (blast dest: bind_err_InrD)
  have "same_frame q ao"
    using q(1) same_frame_refl unfolding lap_species_step by (rule species_loop_frame)
  with q(2) show ?thesis by (rule fill_rcut_frame)
qed

lemma ao_log_hartree_sbt_frame:
  assumes "ao_log_hartree_sbt sbt_c ao = Inr pot"
  shows "same_frame pot ao"
proof -
  from assms obtain sbt where 1: "bind_err (for_each (enumerate_list (psi_log ao)) (sbt_species sbt ao) ao)
      (\<lambda>ao_pot. fill_rcut ao ao_pot) = Inr pot"
    unfolding ao_log_hartree_sbt_def Let_def by (blast dest: bind_err_InrD)
  from 1 obtain q where q: "for_each (enumerate_list (psi_log ao)) (sbt_species sbt ao) ao = Inr q"
    "fill_rcut ao q = Inr pot"
    by (blast dest: bind_err_InrD)
  have "same_frame q ao"
    using q(1) same_frame_refl unfolding sbt_species_step by (rule species_loop_frame)
  with q(2) show ?thesis by (rule fill_rcut_frame)
qed

subsection \<open>The scenarios are well-formed\<close>

lemma wf_ao_example2: "wf_ao ao_example2"
  by (simp add: wf_ao_def ao_example2_def)

lemma example2_contracts:
  "example_sbt_c (rr ao_example2) (pp ao_example2) (jmx ao_example2) = Inr (example_engine (jmx ao_example2))"
  "engine_contract (example_engine (jmx ao_example2)) (nr ao_example2) (jmx ao_example2)"
  "wf_pp ao_example2" "wf_jmx ao_example2"
  "example_ao_log_new ao_example2 = Inr ao_example2"
  "same_shape ao_example2 ao_example2"
  "routine_contract example_routine"
  "nspecies ao_example2 \<le> length (sp2nmult ao_example2)"
  by (simp_all add: example_sbt_c_def engine_contract_def example_engine_def wf_pp_def wf_jmx_def
      example_ao_log_new_def same_shape_def routine_contract_def example_routine_def ao_example2_def)

lemma upper_examples:
  "upper ''lap'' = ''LAP''" "upper ''Sbt'' = ''SBT''" "upper ''xyz'' = ''XYZ''"
  by (simp_all add: upper_def char_upper_def)

lemma wf_ao_example_nonuniform: "wf_ao ao_example_nonuniform"
  by (simp add: wf_ao_def ao_example_nonuniform_def ao_example_def)

subsection \<open>The store: what a call keeps\<close>

lemma frame_lift [simp]: "frame_st L (lift_st r)"
  by (simp add: frame_st_def lift_st_def)

lemma frame_read [simp]:
  "frame_st L (read_float1 a)" "frame_st L (read_float2 a)" "frame_st L (read_int1 a)"
  by (simp_all add: frame_st_def read_float1_def read_float2_def read_int1_def)

lemma frame_bind:
  assumes m: "frame_st L m" and f: "\<And>x h. fst (m h) = Inr x \<Longrightarrow> frame_st L (f x)"
  shows "frame_st L (bind_st m f)"
  unfolding frame_st_def
proof (intro allI impI)
  fix h :: store assume h: "L \<le> length h"
  obtain r h1 where mh: "m h = (r, h1)" by (cases "m h")
  from m h mh have h1: "length h1 = length h" "\<forall>a<L. h1 ! a = h ! a"
    by (auto simp: frame_st_def)
  show "length (snd (bind_st m f h)) = length h \<and> (\<forall>a<L. snd (bind_st m f h) ! a = h ! a)"
  proof (cases r)
    case (Inl e)
    then show ?thesis using mh h1 by (simp add: bind_st_def)
  next
    case (Inr x)
    then have "frame_st L (f x)" using f[of h x] mh by simp
    then have "length (snd (f x h1)) = length h1 \<and> (\<forall>a<L. snd (f x h1) ! a = h1 ! a)"
      using h h1(1) by (simp add: frame_st_def)
    then show ?thesis using mh h1 Inr by (simp add: bind_st_def)
  qed
qed

lemma frame_bind':
  "frame_st L m \<Longrightarrow> (\<And>x. frame_st L (f x)) \<Longrightarrow> frame_st L (bind_st m f)"
  by (rule frame_bind)

lemma frame_for_each:
  assumes "\<And>x. x \<in> set xs \<Longrightarrow> frame_st L (body x)"
  shows "frame_st L (for_each_st xs body)"
  using assms by (induction xs) (simp_all add: frame_bind')

lemma frame_update:
  "L \<le> a \<Longrightarrow> frame_st L (\<lambda>h. (r, h[a := c]))"
  by (simp add: frame_st_def)

lemma frame_write_row: "L \<le> a \<Longrightarrow> frame_st L (write_row a mu v)"
  unfolding write_row_def
  by (intro frame_bind' frame_read frame_lift) (simp add: frame_update)

lemma frame_fill: "L \<le> a \<Longrightarrow> frame_st L (fill a x)"
  unfolding fill_def
  by (intro frame_bind' frame_read) (simp add: frame_update)

lemma lift_np_get_InrD: "fst (lift_st (np_get xs i) h) = Inr x \<Longrightarrow> x \<in> set xs"
  by (auto simp: lift_st_def np_get_def split: if_splits)

lemma fresh_D:
  assumes "fresh L p"
  shows "L \<le> o_sp2rcut p" and "\<And>a. a \<in> set (o_psi_log p) \<Longrightarrow> L \<le> a"
    and "\<And>a. a \<in> set (o_psi_log_rl p) \<Longrightarrow> L \<le> a"
    and "\<And>a. a \<in> set (o_sp_mu2rcut p) \<Longrightarrow> L \<le> a"
  using assms by (auto simp: fresh_def refs_def list_all_iff)

lemma frame_store_rescaled:
  assumes "fresh L ao_pot"
  shows "frame_st L (store_rescaled_st ao ao_pot sp mu am)"
  unfolding store_rescaled_st_def read_row_def
  by (intro frame_bind frame_bind' frame_read frame_lift frame_write_row
        fresh_D(3)[OF assms] lift_np_get_InrD)

lemma frame_lap_mult:
  assumes "fresh L ao_pot"
  shows "frame_st L (lap_mult_st ao ao_pot dr sp a_ff a_j mu)"
  unfolding lap_mult_st_def read_row_def
  by (intro frame_bind frame_bind' frame_read frame_lift frame_write_row
        frame_store_rescaled[OF assms] fresh_D(2)[OF assms] lift_np_get_InrD)

lemma frame_sbt_mult:
  assumes "fresh L ao_pot"
  shows "frame_st L (sbt_mult_st sbt ao ao_pot sp a_ff a_j mu)"
  unfolding sbt_mult_st_def read_row_def
  by (intro frame_bind frame_bind' frame_read frame_lift frame_write_row
        frame_store_rescaled[OF assms] fresh_D(2)[OF assms] lift_np_get_InrD)

lemma frame_lap_species:
  assumes "fresh L ao_pot"
  shows "frame_st L (lap_species_st ao ao_pot dr x)"
  unfolding lap_species_st_def split_def
  by (intro frame_bind' frame_read frame_lift frame_for_each frame_lap_mult[OF assms])

lemma frame_sbt_species:
  assumes "fresh L ao_pot"
  shows "frame_st L (sbt_species_st sbt ao ao_pot x)"
  unfolding sbt_species_st_def split_def
  by (intro frame_bind' frame_read frame_lift frame_for_each frame_sbt_mult[OF assms])

lemma frame_fill_rcut:
  assumes "fresh L ao_pot"
  shows "frame_st L (fill_rcut_st ao ao_pot)"
  unfolding fill_rcut_st_def fill_sp_mu2rcut_st_def
  by (intro frame_bind frame_bind' frame_read frame_lift frame_for_each frame_fill
        fresh_D(1)[OF assms] fresh_D(4)[OF assms] lift_np_get_InrD)

subsection \<open>The store scenario, evaluated\<close>

lemma deepcopy_example:
  "deepcopy obj_example store_example =
    (Inr \<lparr>o_nr = 2, o_nspecies = 1, o_jmx = 0, o_rr = 8, o_pp = 9, o_sp2nmult = 10, o_sp2rcut = 11,
      o_sp_mu2j = [12], o_psi_log = [13], o_psi_log_rl = [14], o_sp_mu2rcut = [15]\<rparr>,
     store_example @ store_example)"
  by (simp add: deepcopy_def relocate_def obj_example_def store_example_def refs_def index_of_def Let_def)

lemma vff_example: "lap_vff 2 [1, 2] [1, 8] 0 = Inr [5, 9 / 2]"
proof -
  have s: "{..<2::nat} = {0, 1}" by auto
  have u: "[0..<2] = [0, 1]" by (simp add: upt_rec)
  show ?thesis by (simp add: lap_vff_Inr hartree_kernel_def s u)
qed

lemma lap_example:
  "ao_log_hartree_lap_st obj_example store_example =
    (Inr \<lparr>o_nr = 2, o_nspecies = 1, o_jmx = 0, o_rr = 8, o_pp = 9, o_sp2nmult = 10, o_sp2rcut = 11,
      o_sp_mu2j = [12], o_psi_log = [13], o_psi_log_rl = [14], o_sp_mu2rcut = [15]\<rparr>,
     store_example @
     [Float1 [1, 2], Float1 [1, 2], Int1 [1], Float1 [2], Int1 [0],
      Float2 [[4 * pi * ln 2 * 5, 4 * pi * ln 2 * (9 / 2)]],
      Float2 [[4 * pi * ln 2 * 5, 4 * pi * ln 2 * (9 / 2)]], Float1 [2]])"
  unfolding ao_log_hartree_lap_st_def
  apply (simp add: bind_st_def deepcopy_example)
  apply (simp add: obj_example_def store_example_def read_float1_def lift_st_def bind_st_def
      enumerate_list_def lap_species_st_def read_float2_def read_int1_def py_range_def
      lap_mult_st_def read_row_def vff_example write_row_def store_rescaled_st_def
      fill_rcut_st_def fill_sp_mu2rcut_st_def fill_def Let_def)
  done

subsection \<open>The copy is fresh and the rest of the call keeps the store\<close>

lemma index_of_less: "a \<in> set as \<Longrightarrow> index_of as a < length as"
  unfolding index_of_def by (induction as) auto

lemma refs_relocate: "refs (relocate new ao) = map new (refs ao)"
  by (simp add: refs_def relocate_def)

lemma relocate_scalars:
  "o_nr (relocate new ao) = o_nr ao" "o_nspecies (relocate new ao) = o_nspecies ao"
  "o_jmx (relocate new ao) = o_jmx ao"
  "length (o_sp_mu2j (relocate new ao)) = length (o_sp_mu2j ao)"
  "length (o_psi_log (relocate new ao)) = length (o_psi_log ao)"
  by (simp_all add: relocate_def)

lemma deepcopy_fresh:
  assumes "deepcopy ao h = (r, h1)"
  shows "\<exists>p. r = Inr p \<and> fresh (length h) p \<and> length h \<le> length h1 \<and> take (length h) h1 = h \<and>
           list_all (\<lambda>a. a < length h1) (refs p) \<and>
           o_nr p = o_nr ao \<and> o_nspecies p = o_nspecies ao \<and> o_jmx p = o_jmx ao \<and>
           length (o_sp_mu2j p) = length (o_sp_mu2j ao) \<and> length (o_psi_log p) = length (o_psi_log ao)"
proof -
  let ?as = "remdups (refs ao)"
  let ?new = "\<lambda>a. length h + index_of ?as a"
  let ?p = "relocate ?new ao"
  from assms have h1: "h1 = h @ map (\<lambda>a. if a < length h then h ! a else Float1 []) ?as"
    and rr: "r = Inr ?p"
    by (simp_all add: deepcopy_def Let_def)
  have l: "length h1 = length h + length ?as" using h1 by simp
  have f: "fresh (length h) ?p"
    by (simp add: fresh_def refs_relocate list_all_iff)
  have v: "list_all (\<lambda>a. a < length h1) (refs ?p)"
    unfolding refs_relocate list_all_iff l
  proof
    fix b assume "b \<in> set (map ?new (refs ao))"
    then obtain a where a: "a \<in> set (refs ao)" "b = ?new a" by auto
    from a(1) have "a \<in> set ?as" by simp
    then have "index_of ?as a < length ?as" by (rule index_of_less)
    then show "b < length h + length ?as" using a(2) by simp
  qed
  have t: "take (length h) h1 = h" using h1 by simp
  show ?thesis
    using rr f l v t relocate_scalars[of ?new ao] by simp
qed

lemma frame_stD:
  assumes "frame_st L m" "L \<le> length h" "take L h = h0" "length h0 = L"
  shows "take L (snd (m h)) = h0" and "length (snd (m h)) = length h"
proof -
  from assms(1,2) have a: "length (snd (m h)) = length h" "\<forall>a<L. snd (m h) ! a = h ! a"
    by (auto simp: frame_st_def)
  show "length (snd (m h)) = length h" by (rule a)
  show "take L (snd (m h)) = h0"
    using a assms(2-4) by (auto simp: list_eq_iff_nth_eq)
qed

lemma bind_st_lift_snd:
  "snd (bind_st m (\<lambda>_. lift_st (Inr p)) h) = snd (m h)"
  by (cases "m h" rule: prod.exhaust; cases "fst (m h)") (auto simp: bind_st_def lift_st_def)

lemma bind_st_lift_fst:
  "fst (bind_st m (\<lambda>_. lift_st (Inr p)) h) = Inr q \<Longrightarrow> q = p"
  by (cases "m h" rule: prod.exhaust; cases "fst (m h)") (auto simp: bind_st_def lift_st_def)

lemma bind_st_assoc: "bind_st (bind_st m f) g = bind_st m (\<lambda>x. bind_st (f x) g)"
  by (auto simp: bind_st_def fun_eq_iff split: prod.splits sum.splits)

lemma lap_st_body:
  "ao_log_hartree_lap_st ao =
     bind_st (deepcopy ao) (\<lambda>ao_pot. bind_st (lap_body_st ao ao_pot) (\<lambda>_. lift_st (Inr ao_pot)))"
  by (simp add: ao_log_hartree_lap_st_def lap_body_st_def bind_st_assoc Let_def)

lemma frame_lap_body:
  assumes "fresh L ao_pot"
  shows "frame_st L (lap_body_st ao ao_pot)"
  unfolding lap_body_st_def Let_def
  by (intro frame_bind' frame_read frame_lift frame_for_each frame_lap_species[OF assms]
        frame_fill_rcut[OF assms])

lemma frame_sbt_body:
  assumes "fresh L ao_pot"
  shows "frame_st L (sbt_body_st sbt ao ao_pot)"
  unfolding sbt_body_st_def
  by (intro frame_bind' frame_for_each frame_sbt_species[OF assms] frame_fill_rcut[OF assms])

lemma copy_then_body:
  assumes valid: "list_all (\<lambda>a. a < length h) (refs ao)"
    and body: "\<And>L p. fresh L p \<Longrightarrow> frame_st L (body p)"
  shows "fresh_result ao h
           (bind_st (deepcopy ao) (\<lambda>ao_pot. bind_st (body ao_pot) (\<lambda>_. lift_st (Inr ao_pot))) h)"
proof -
  obtain r h1 where d: "deepcopy ao h = (r, h1)" by (cases "deepcopy ao h")
  from deepcopy_fresh[OF d] obtain p where p: "r = Inr p" "fresh (length h) p"
    "length h \<le> length h1" "take (length h) h1 = h" "list_all (\<lambda>a. a < length h1) (refs p)"
    "o_nr p = o_nr ao" "o_nspecies p = o_nspecies ao" "o_jmx p = o_jmx ao"
    "length (o_sp_mu2j p) = length (o_sp_mu2j ao)" "length (o_psi_log p) = length (o_psi_log ao)"
    by blast
  let ?out = "bind_st (body p) (\<lambda>_. lift_st (Inr p)) h1"
  have o: "bind_st (deepcopy ao) (\<lambda>ao_pot. bind_st (body ao_pot) (\<lambda>_. lift_st (Inr ao_pot))) h = ?out"
    using d p(1) by (simp add: bind_st_def)
  have s: "snd ?out = snd (body p h1)" by (rule bind_st_lift_snd)
  note fr = frame_stD[OF body[OF p(2)] p(3,4), simplified]
  have t: "take (length h) (snd ?out) = h" and l: "length (snd ?out) = length h1"
    using fr s by simp_all
  have disj: "set (refs p) \<inter> set (refs ao) = {}"
    using p(2) valid by (fastforce simp: fresh_def list_all_iff)
  have "fresh_result ao h ?out"
  proof (cases "fst ?out")
    case (Inl e)
    then show ?thesis using t by (simp add: fresh_result_def split_beta)
  next
    case (Inr q)
    then have q: "q = p" by (rule bind_st_lift_fst)
    have "list_all (\<lambda>a. length h \<le> a \<and> a < length (snd ?out)) (refs p)"
      using p(2,5) l by (simp add: fresh_def list_all_iff)
    then show ?thesis
      using Inr q t disj p(6-10) by (simp add: fresh_result_def split_beta)
  qed
  then show ?thesis unfolding o .
qed

lemma fresh_result_Inl: "fresh_result ao h (Inl e, h)"
  by (simp add: fresh_result_def)

lemma sbt_st_body:
  "ao_log_hartree_sbt_st sbt_c ao =
     bind_st (read_float1 (o_rr ao)) (\<lambda>rs.
     bind_st (read_float1 (o_pp ao)) (\<lambda>ps.
     bind_st (lift_st (sbt_c rs ps (o_jmx ao))) (\<lambda>sbt.
     bind_st (deepcopy ao) (\<lambda>ao_pot.
     bind_st (sbt_body_st sbt ao ao_pot) (\<lambda>_. lift_st (Inr ao_pot))))))"
  by (simp add: ao_log_hartree_sbt_st_def sbt_body_st_def bind_st_assoc)

lemma read_float1_cases:
  obtains xs where "read_float1 a h = (Inr xs, h)" | e where "read_float1 a h = (Inl e, h)"
  by (cases "fst (read_float1 a h)") (auto simp: read_float1_def split: if_splits)

lemma sbt_example:
  "ao_log_hartree_sbt_st example_sbt_c obj_example store_example =
    (Inr \<lparr>o_nr = 2, o_nspecies = 1, o_jmx = 0, o_rr = 8, o_pp = 9, o_sp2nmult = 10, o_sp2rcut = 11,
      o_sp_mu2j = [12], o_psi_log = [13], o_psi_log_rl = [14], o_sp_mu2rcut = [15]\<rparr>,
     store_example @
     [Float1 [1, 2], Float1 [1, 2], Int1 [1], Float1 [2], Int1 [0],
      Float2 [[4 * pi, pi]], Float2 [[4 * pi, pi]], Float1 [2]])"
proof -
  have r: "read_float1 (o_rr obj_example) store_example = (Inr [1, 2], store_example)"
    "read_float1 (o_pp obj_example) store_example = (Inr [1, 2], store_example)"
    by (simp_all add: read_float1_def obj_example_def store_example_def)
  show ?thesis
    unfolding ao_log_hartree_sbt_st_def
    apply (simp add: bind_st_def r lift_st_def example_sbt_c_def deepcopy_example)
    apply (simp add: obj_example_def store_example_def read_float1_def lift_st_def bind_st_def
      enumerate_list_def sbt_species_st_def read_float2_def read_int1_def py_range_def
      sbt_mult_st_def read_row_def write_row_def store_rescaled_st_def
      fill_rcut_st_def fill_sp_mu2rcut_st_def fill_def Let_def example_engine_def)
    done
qed

subsection \<open>The store model refines the value model\<close>

lemma bind_st_Inr: "m h = (Inr x, h1) \<Longrightarrow> bind_st m f h = f x h1"
  by (simp add: bind_st_def)

lemma bind_st_Inl: "m h = (Inl e, h1) \<Longrightarrow> bind_st m f h = (Inl e, h1)"
  by (simp add: bind_st_def)

lemma bind_lift_Inr [simp]: "bind_st (lift_st (Inr x)) f h = f x h"
  by (simp add: bind_st_def lift_st_def)

lemma for_each_sim:
  assumes "length ys = length xs"
    and "\<And>i h p p'. i < length xs \<Longrightarrow> R h p \<Longrightarrow> body (xs ! i) p = Inr p' \<Longrightarrow>
           \<exists>h'. body_st (ys ! i) h = (Inr (), h') \<and> R h' p'"
    and "R h p" and "for_each xs body p = Inr p'"
  shows "\<exists>h'. for_each_st ys body_st h = (Inr (), h') \<and> R h' p'"
  using assms
proof (induction ys xs arbitrary: h p rule: list_induct2)
  case Nil
  then show ?case by (simp add: lift_st_def)
next
  case (Cons y ys x xs)
  from Cons.prems(3) obtain p1 where p1: "body x p = Inr p1" "for_each xs body p1 = Inr p'"
    by (cases "body x p") simp_all
  from Cons.prems(1)[of 0 h p p1] Cons.prems(2) p1(1)
  obtain h1 where h1: "body_st y h = (Inr (), h1)" "R h1 p1" by auto
  have "\<exists>h'. for_each_st ys body_st h1 = (Inr (), h') \<and> R h' p'"
  proof (rule Cons.IH[OF _ h1(2) p1(2)])
    fix i h p p' assume "i < length xs" "R h p" "body (xs ! i) p = Inr p'"
    then show "\<exists>h'. body_st (ys ! i) h = (Inr (), h') \<and> R h' p'"
      using Cons.prems(1)[of "Suc i" h p p'] by simp
  qed
  then show ?case using h1(1) by (simp add: bind_st_Inr)
qed

lemma is_float1E: "is_float1 c \<Longrightarrow> c = Float1 (float1_of c)"
  by (cases c) simp_all

lemma is_float2E: "is_float2 c \<Longrightarrow> c = Float2 (float2_of c)"
  by (cases c) simp_all

lemma is_int1E: "is_int1 c \<Longrightarrow> c = Int1 (int1_of c)"
  by (cases c) simp_all

lemma read_float1_typed:
  "a < length h \<Longrightarrow> is_float1 (h ! a) \<Longrightarrow> read_float1 a h = (Inr (float1_of (h ! a)), h)"
  by (cases "h ! a") (simp_all add: read_float1_def)

lemma read_float2_typed:
  "a < length h \<Longrightarrow> is_float2 (h ! a) \<Longrightarrow> read_float2 a h = (Inr (float2_of (h ! a)), h)"
  by (cases "h ! a") (simp_all add: read_float2_def)

lemma read_int1_typed:
  "a < length h \<Longrightarrow> is_int1 (h ! a) \<Longrightarrow> read_int1 a h = (Inr (int1_of (h ! a)), h)"
  by (cases "h ! a") (simp_all add: read_int1_def)

text \<open>Writing an array of the kind that is already there leaves the other kinds as they read.\<close>

lemma update_float2_other:
  assumes "a < length h" "is_float2 (h ! a)"
  shows "float1_of (h[a := Float2 x] ! b) = float1_of (h ! b)"
    and "int1_of (h[a := Float2 x] ! b) = int1_of (h ! b)"
    and "is_float1 (h[a := Float2 x] ! b) = is_float1 (h ! b)"
    and "is_int1 (h[a := Float2 x] ! b) = is_int1 (h ! b)"
    and "is_float2 (h[a := Float2 x] ! b) = is_float2 (h ! b)"
  using assms by (cases "b = a"; cases "h ! a"; simp)+

lemma update_float1_other:
  assumes "a < length h" "is_float1 (h ! a)"
  shows "float2_of (h[a := Float1 x] ! b) = float2_of (h ! b)"
    and "int1_of (h[a := Float1 x] ! b) = int1_of (h ! b)"
    and "is_float1 (h[a := Float1 x] ! b) = is_float1 (h ! b)"
    and "is_int1 (h[a := Float1 x] ! b) = is_int1 (h ! b)"
    and "is_float2 (h[a := Float1 x] ! b) = is_float2 (h ! b)"
  using assms by (cases "b = a"; cases "h ! a"; simp)+

lemma typed_update_float2:
  assumes "typed h ob" "a < length h" "is_float2 (h ! a)"
  shows "typed (h[a := Float2 x]) ob"
  using assms(1) by (simp add: typed_def update_float2_other[OF assms(2,3)])

lemma typed_update_float1:
  assumes "typed h ob" "a < length h" "is_float1 (h ! a)"
  shows "typed (h[a := Float1 x]) ob"
  using assms(1) by (simp add: typed_def update_float1_other[OF assms(2,3)])

lemma map_nth_update_distinct:
  assumes "distinct as" "i < length as"
  shows "map (\<lambda>b. f (h[as ! i := c] ! b)) as = (map (\<lambda>b. f (h ! b)) as)[i := f (h[as ! i := c] ! (as ! i))]"
proof (rule nth_equalityI)
  show "length (map (\<lambda>b. f (h[as ! i := c] ! b)) as) =
        length ((map (\<lambda>b. f (h ! b)) as)[i := f (h[as ! i := c] ! (as ! i))])" by simp
next
  fix k assume "k < length (map (\<lambda>b. f (h[as ! i := c] ! b)) as)"
  then have k: "k < length as" by simp
  show "map (\<lambda>b. f (h[as ! i := c] ! b)) as ! k =
        (map (\<lambda>b. f (h ! b)) as)[i := f (h[as ! i := c] ! (as ! i))] ! k"
  proof (cases "k = i")
    case True
    then show ?thesis using k by simp
  next
    case False
    then have "as ! k \<noteq> as ! i" using assms k by (simp add: nth_eq_iff_index_eq)
    then show ?thesis using k False by simp
  qed
qed

lemma map_nth_update_notin:
  "a \<notin> set as \<Longrightarrow> map (\<lambda>b. f (h[a := c] ! b)) as = map (\<lambda>b. f (h ! b)) as"
  by (induction as) auto

subsection \<open>Reads and writes against the denoted orbital set\<close>

lemma take_prefixD:
  assumes "take (length h0) h = h0"
  shows "length h0 \<le> length h" and "\<And>a. a < length h0 \<Longrightarrow> h ! a = h0 ! a"
proof -
  have "length (take (length h0) h) = length h0" using assms by simp
  then show "length h0 \<le> length h" by simp
  fix a assume "a < length h0"
  then have "take (length h0) h ! a = h ! a" by simp
  then show "h ! a = h0 ! a" using assms by simp
qed

lemma typed_refsD:
  assumes "typed h ob"
  shows "o_rr ob < length h" "o_pp ob < length h" "o_sp2rcut ob < length h"
    and "\<And>i. i < length (o_sp_mu2j ob) \<Longrightarrow> o_sp_mu2j ob ! i < length h \<and> is_int1 (h ! (o_sp_mu2j ob ! i))"
    and "\<And>i. i < length (o_psi_log ob) \<Longrightarrow> o_psi_log ob ! i < length h \<and> is_float2 (h ! (o_psi_log ob ! i))"
    and "\<And>i. i < length (o_psi_log_rl ob) \<Longrightarrow> o_psi_log_rl ob ! i < length h \<and> is_float2 (h ! (o_psi_log_rl ob ! i))"
    and "\<And>i. i < length (o_sp_mu2rcut ob) \<Longrightarrow> o_sp_mu2rcut ob ! i < length h \<and> is_float1 (h ! (o_sp_mu2rcut ob ! i))"
    and "is_float1 (h ! o_rr ob)" "is_float1 (h ! o_pp ob)" "is_float1 (h ! o_sp2rcut ob)"
  using assms by (auto simp: typed_def refs_def list_all_iff)

lemma read_input:
  assumes t: "typed h0 ao" and p: "take (length h0) h = h0"
  shows "read_float1 (o_rr ao) h = (Inr (rr (abs_ao h0 ao)), h)"
    and "read_float1 (o_pp ao) h = (Inr (pp (abs_ao h0 ao)), h)"
    and "\<And>sp. sp < length (o_psi_log ao) \<Longrightarrow>
           read_float2 (o_psi_log ao ! sp) h = (Inr (psi_log (abs_ao h0 ao) ! sp), h)"
    and "\<And>sp. sp < length (o_sp_mu2j ao) \<Longrightarrow>
           read_int1 (o_sp_mu2j ao ! sp) h = (Inr (sp_mu2j (abs_ao h0 ao) ! sp), h)"
proof -
  note d = take_prefixD[OF p] and r = typed_refsD[OF t]
  show "read_float1 (o_rr ao) h = (Inr (rr (abs_ao h0 ao)), h)"
    using read_float1_typed[of "o_rr ao" h] d r(1,8) by (simp add: abs_ao_def)
  show "read_float1 (o_pp ao) h = (Inr (pp (abs_ao h0 ao)), h)"
    using read_float1_typed[of "o_pp ao" h] d r(2,9) by (simp add: abs_ao_def)
  {
    fix sp assume sp: "sp < length (o_psi_log ao)"
    show "read_float2 (o_psi_log ao ! sp) h = (Inr (psi_log (abs_ao h0 ao) ! sp), h)"
      using read_float2_typed[of "o_psi_log ao ! sp" h] d r(5)[OF sp] sp by (simp add: abs_ao_def)
  }
  {
    fix sp assume sp: "sp < length (o_sp_mu2j ao)"
    show "read_int1 (o_sp_mu2j ao ! sp) h = (Inr (sp_mu2j (abs_ao h0 ao) ! sp), h)"
      using read_int1_typed[of "o_sp_mu2j ao ! sp" h] d r(4)[OF sp] sp by (simp add: abs_ao_def)
  }
qed

lemma rel_st_psi_log:
  assumes "rel_st h0 pot h p" "sp < length (psi_log p)"
  shows "sp < length (o_psi_log pot)" "o_psi_log pot ! sp < length h"
    "h ! (o_psi_log pot ! sp) = Float2 (psi_log p ! sp)"
proof -
  from assms(1) have t: "typed h pot" and a: "abs_ao h pot = p" by (simp_all add: rel_st_def)
  have l: "length (psi_log p) = length (o_psi_log pot)" using a by (auto simp: abs_ao_def)
  show sp: "sp < length (o_psi_log pot)" using assms(2) l by simp
  note r = typed_refsD(5)[OF t sp]
  show "o_psi_log pot ! sp < length h" using r by simp
  have "float2_of (h ! (o_psi_log pot ! sp)) = psi_log p ! sp" using a sp by (auto simp: abs_ao_def)
  then show "h ! (o_psi_log pot ! sp) = Float2 (psi_log p ! sp)" using is_float2E r by metis
qed

lemma rel_st_psi_log_rl:
  assumes "rel_st h0 pot h p" "sp < length (psi_log_rl p)"
  shows "sp < length (o_psi_log_rl pot)" "o_psi_log_rl pot ! sp < length h"
    "h ! (o_psi_log_rl pot ! sp) = Float2 (psi_log_rl p ! sp)"
proof -
  from assms(1) have t: "typed h pot" and a: "abs_ao h pot = p" by (simp_all add: rel_st_def)
  have l: "length (psi_log_rl p) = length (o_psi_log_rl pot)" using a by (auto simp: abs_ao_def)
  show sp: "sp < length (o_psi_log_rl pot)" using assms(2) l by simp
  note r = typed_refsD(6)[OF t sp]
  show "o_psi_log_rl pot ! sp < length h" using r by simp
  have "float2_of (h ! (o_psi_log_rl pot ! sp)) = psi_log_rl p ! sp" using a sp by (auto simp: abs_ao_def)
  then show "h ! (o_psi_log_rl pot ! sp) = Float2 (psi_log_rl p ! sp)" using is_float2E r by metis
qed

lemma set_row_InrD:
  assumes "set_row a sp mu v = Inr a'"
  shows "sp < length a \<and> mu < length (a ! sp) \<and>
         (\<exists>w. a' = a[sp := (a ! sp)[mu := w]] \<and>
              (if length v = length (a ! sp ! mu) then w = v
               else length v = 1 \<and> w = replicate (length (a ! sp ! mu)) (hd v)))"
proof -
  from assms obtain m where m: "np_get a sp = Inr m"
    and 1: "bind_err (np_get m mu) (\<lambda>row.
       if length v = length row then Inr (a[sp := m[mu := v]])
       else if length v = 1 then Inr (a[sp := m[mu := replicate (length row) (hd v)]])
       else Inl ValueError) = Inr a'"
    unfolding set_row_def by (blast dest: bind_err_InrD)
  from 1 obtain row where row: "np_get m mu = Inr row"
    and 2: "(if length v = length row then Inr (a[sp := m[mu := v]])
       else if length v = 1 then Inr (a[sp := m[mu := replicate (length row) (hd v)]])
       else Inl ValueError) = Inr a'"
    by (blast dest: bind_err_InrD)
  from np_get_InrD[OF m] have sp: "sp < length a" "m = a ! sp" by simp_all
  from np_get_InrD[OF row] have mu: "mu < length m" "row = m ! mu" by simp_all
  show ?thesis
    using 2 sp mu by (cases "length v = length row"; cases "length v = 1") auto
qed

lemma write_row_Float2:
  assumes "a < length h" "h ! a = Float2 m" "mu < length m"
    and "if length v = length (m ! mu) then w = v
         else length v = 1 \<and> w = replicate (length (m ! mu)) (hd v)"
  shows "write_row a mu v h = (Inr (), h[a := Float2 (m[mu := w])])"
proof -
  have r: "read_float2 a h = (Inr m, h)" using assms(1,2) by (simp add: read_float2_def)
  show ?thesis
    unfolding write_row_def
    using assms(3,4)
    by (simp add: r np_get_def bind_st_def lift_st_def split: if_splits)
qed

lemma fresh_take:
  assumes "fresh (length h0) pot" "a \<in> set (refs pot)" "take (length h0) h = h0"
  shows "take (length h0) (h[a := c]) = h0"
proof -
  have "length h0 \<le> a" using assms(1,2) by (simp add: fresh_def list_all_iff)
  then show ?thesis using assms(3) by simp
qed

lemma write_psi_log_sim:
  assumes f: "fresh (length h0) pot" and u: "unaliased pot" and r: "rel_st h0 pot h p"
    and s: "set_row (psi_log p) sp mu v = Inr psi'"
  shows "\<exists>h'. write_row (o_psi_log pot ! sp) mu v h = (Inr (), h') \<and>
           rel_st h0 pot h' (p\<lparr>psi_log := psi'\<rparr>)"
proof -
  let ?a = "o_psi_log pot ! sp"
  let ?m = "psi_log p ! sp"
  from set_row_InrD[OF s] obtain w where sp: "sp < length (psi_log p)" and mu: "mu < length ?m"
    and w: "psi' = (psi_log p)[sp := ?m[mu := w]]"
      "if length v = length (?m ! mu) then w = v
       else length v = 1 \<and> w = replicate (length (?m ! mu)) (hd v)"
    by blast
  note c = rel_st_psi_log[OF r sp]
  let ?h' = "h[?a := Float2 (?m[mu := w])]"
  have wr: "write_row ?a mu v h = (Inr (), ?h')"
    by (rule write_row_Float2[OF c(2,3) mu w(2)])
  from r have p: "take (length h0) h = h0" and t: "typed h pot" and a: "abs_ao h pot = p"
    by (simp_all add: rel_st_def)
  have k: "is_float2 (h ! ?a)" using c(3) by simp
  have mem: "?a \<in> set (refs pot)" using c(1) by (simp add: refs_def)
  have "?a \<in> set (o_psi_log pot)" using c(1) by simp
  then have d: "distinct (o_psi_log pot)" "?a \<notin> set (o_psi_log_rl pot)"
    using u by (auto simp: unaliased_def)
  note o = update_float2_other[OF c(2) k]
  have e1: "map (\<lambda>b. float2_of (?h' ! b)) (o_psi_log pot) = psi'"
    unfolding map_nth_update_distinct[OF d(1) c(1)] w(1)
    using a c(2) by (auto simp: abs_ao_def)
  have e2: "map (\<lambda>b. float2_of (?h' ! b)) (o_psi_log_rl pot) = psi_log_rl p"
    unfolding map_nth_update_notin[OF d(2)] using a by (auto simp: abs_ao_def)
  have "abs_ao ?h' pot = p\<lparr>psi_log := psi'\<rparr>"
    unfolding abs_ao_def e1 e2 o using a by (auto simp: abs_ao_def)
  moreover have "typed ?h' pot" by (rule typed_update_float2[OF t c(2) k])
  moreover have "take (length h0) ?h' = h0" by (rule fresh_take[OF f mem p])
  ultimately show ?thesis using wr by (simp add: rel_st_def)
qed

lemma write_psi_log_rl_sim:
  assumes f: "fresh (length h0) pot" and u: "unaliased pot" and r: "rel_st h0 pot h p"
    and s: "set_row (psi_log_rl p) sp mu v = Inr rl'"
  shows "\<exists>h'. write_row (o_psi_log_rl pot ! sp) mu v h = (Inr (), h') \<and>
           rel_st h0 pot h' (p\<lparr>psi_log_rl := rl'\<rparr>)"
proof -
  let ?a = "o_psi_log_rl pot ! sp"
  let ?m = "psi_log_rl p ! sp"
  from set_row_InrD[OF s] obtain w where sp: "sp < length (psi_log_rl p)" and mu: "mu < length ?m"
    and w: "rl' = (psi_log_rl p)[sp := ?m[mu := w]]"
      "if length v = length (?m ! mu) then w = v
       else length v = 1 \<and> w = replicate (length (?m ! mu)) (hd v)"
    by blast
  note c = rel_st_psi_log_rl[OF r sp]
  let ?h' = "h[?a := Float2 (?m[mu := w])]"
  have wr: "write_row ?a mu v h = (Inr (), ?h')"
    by (rule write_row_Float2[OF c(2,3) mu w(2)])
  from r have p: "take (length h0) h = h0" and t: "typed h pot" and a: "abs_ao h pot = p"
    by (simp_all add: rel_st_def)
  have k: "is_float2 (h ! ?a)" using c(3) by simp
  have mem: "?a \<in> set (refs pot)" using c(1) by (simp add: refs_def)
  have "?a \<in> set (o_psi_log_rl pot)" using c(1) by simp
  then have d: "distinct (o_psi_log_rl pot)" "?a \<notin> set (o_psi_log pot)"
    using u by (auto simp: unaliased_def)
  note o = update_float2_other[OF c(2) k]
  have e1: "map (\<lambda>b. float2_of (?h' ! b)) (o_psi_log_rl pot) = rl'"
    unfolding map_nth_update_distinct[OF d(1) c(1)] w(1)
    using a c(2) by (auto simp: abs_ao_def)
  have e2: "map (\<lambda>b. float2_of (?h' ! b)) (o_psi_log pot) = psi_log p"
    unfolding map_nth_update_notin[OF d(2)] using a by (auto simp: abs_ao_def)
  have "abs_ao ?h' pot = p\<lparr>psi_log_rl := rl'\<rparr>"
    unfolding abs_ao_def e1 e2 o using a by (auto simp: abs_ao_def)
  moreover have "typed ?h' pot" by (rule typed_update_float2[OF t c(2) k])
  moreover have "take (length h0) ?h' = h0" by (rule fresh_take[OF f mem p])
  ultimately show ?thesis using wr by (simp add: rel_st_def)
qed

lemma get_row_InrD:
  assumes "get_row a sp mu = Inr row"
  shows "sp < length a" "mu < length (a ! sp)" "row = a ! sp ! mu"
proof -
  from assms obtain m where m: "np_get a sp = Inr m" "np_get m mu = Inr row"
    unfolding get_row_def by (blast dest: bind_err_InrD)
  from np_get_InrD[OF m(1)] np_get_InrD[OF m(2)]
  show "sp < length a" "mu < length (a ! sp)" "row = a ! sp ! mu" by simp_all
qed

lemma lift_np_get [simp]: "i < length xs \<Longrightarrow> lift_st (np_get xs i) = lift_st (Inr (xs ! i))"
  by (simp add: np_get_def)

lemma read_row_Float2:
  "a < length h \<Longrightarrow> h ! a = Float2 m \<Longrightarrow> mu < length m \<Longrightarrow> read_row a mu h = (Inr (m ! mu), h)"
  by (simp add: read_row_def read_float2_def bind_st_def lift_st_def)

lemma store_rescaled_sim:
  assumes t: "typed h0 ao" and f: "fresh (length h0) pot" and u: "unaliased pot"
    and r: "rel_st h0 pot h p"
    and s: "store_rescaled (abs_ao h0 ao) sp mu am p = Inr p'"
  shows "\<exists>h'. store_rescaled_st ao pot sp mu am h = (Inr (), h') \<and> rel_st h0 pot h' p'"
proof -
  let ?ao0 = "abs_ao h0 ao"
  from s obtain row where row: "get_row (psi_log p) sp mu = Inr row"
    and 1: "bind_err (np_broadcast (/) row (map (\<lambda>r. power_int r am) (rr ?ao0))) (\<lambda>q.
     bind_err (set_row (psi_log_rl p) sp mu q) (\<lambda>rl. Inr (p\<lparr>psi_log_rl := rl\<rparr>))) = Inr p'"
    unfolding store_rescaled_def by (blast dest: bind_err_InrD)
  from 1 obtain q where q: "np_broadcast (/) row (map (\<lambda>r. power_int r am) (rr ?ao0)) = Inr q"
    and 2: "bind_err (set_row (psi_log_rl p) sp mu q) (\<lambda>rl. Inr (p\<lparr>psi_log_rl := rl\<rparr>)) = Inr p'"
    by (blast dest: bind_err_InrD)
  from 2 obtain rl where rl: "set_row (psi_log_rl p) sp mu q = Inr rl" "p' = p\<lparr>psi_log_rl := rl\<rparr>"
    by (auto dest: bind_err_InrD)
  note g = get_row_InrD[OF row]
  note c = rel_st_psi_log[OF r g(1)]
  have rd: "read_row (o_psi_log pot ! sp) mu h = (Inr row, h)"
    using read_row_Float2[OF c(2,3) g(2)] g(3) by simp
  from r have p: "take (length h0) h = h0" by (simp add: rel_st_def)
  note ri = read_input(1)[OF t p]
  from set_row_InrD[OF rl(1)] have sp': "sp < length (psi_log_rl p)" by simp
  note c' = rel_st_psi_log_rl[OF r sp']
  from write_psi_log_rl_sim[OF f u r rl(1)] obtain h' where
    h': "write_row (o_psi_log_rl pot ! sp) mu q h = (Inr (), h')" "rel_st h0 pot h' p'"
    unfolding rl(2) by blast
  have "store_rescaled_st ao pot sp mu am h = (Inr (), h')"
    unfolding store_rescaled_st_def
    using c(1) c'(1) by (simp add: bind_st_Inr[where m = "read_row (o_psi_log pot ! sp) mu", OF rd]
        bind_st_Inr[where m = "read_float1 (o_rr ao)", OF ri] q h'(1))
  with h'(2) show ?thesis by blast
qed

lemma lap_mult_sim:
  assumes t: "typed h0 ao" and f: "fresh (length h0) pot" and u: "unaliased pot"
    and r: "rel_st h0 pot h p"
    and n: "o_nr ao = nr (abs_ao h0 ao)"
    and sp: "sp < length (o_psi_log ao)" "sp < length (o_sp_mu2j ao)"
    and mu: "mu < length (psi_log (abs_ao h0 ao) ! sp)" "mu < length (sp_mu2j (abs_ao h0 ao) ! sp)"
    and s: "lap_mult (abs_ao h0 ao) dr sp
              (mu, psi_log (abs_ao h0 ao) ! sp ! mu, sp_mu2j (abs_ao h0 ao) ! sp ! mu) p = Inr p'"
  shows "\<exists>h'. lap_mult_st ao pot dr sp (o_psi_log ao ! sp) (o_sp_mu2j ao ! sp) mu h = (Inr (), h') \<and>
           rel_st h0 pot h' p'"
proof -
  let ?ao0 = "abs_ao h0 ao"
  let ?ff = "psi_log ?ao0 ! sp ! mu"
  let ?am = "sp_mu2j ?ao0 ! sp ! mu"
  from s obtain ffrr3 where g: "np_broadcast (*) ?ff (map (\<lambda>r. r ^ 3) (rr ?ao0)) = Inr ffrr3"
    and 1: "bind_err (lap_vff (nr ?ao0) (rr ?ao0) ffrr3 ?am) (\<lambda>vff.
     bind_err (set_row (psi_log p) sp mu
                 (map (\<lambda>v. (4 * pi * dr) / (2 * of_int ?am + 1) * v) vff)) (\<lambda>psi.
       store_rescaled ?ao0 sp mu ?am (p\<lparr>psi_log := psi\<rparr>))) = Inr p'"
    unfolding lap_mult_def prod.case by (blast dest: bind_err_InrD)
  from 1 obtain vff where v: "lap_vff (nr ?ao0) (rr ?ao0) ffrr3 ?am = Inr vff"
    and 2: "bind_err (set_row (psi_log p) sp mu
                 (map (\<lambda>v. (4 * pi * dr) / (2 * of_int ?am + 1) * v) vff)) (\<lambda>psi.
       store_rescaled ?ao0 sp mu ?am (p\<lparr>psi_log := psi\<rparr>)) = Inr p'"
    by (blast dest: bind_err_InrD)
  from 2 obtain psi where psi: "set_row (psi_log p) sp mu
                 (map (\<lambda>v. (4 * pi * dr) / (2 * of_int ?am + 1) * v) vff) = Inr psi"
    and 3: "store_rescaled ?ao0 sp mu ?am (p\<lparr>psi_log := psi\<rparr>) = Inr p'"
    by (blast dest: bind_err_InrD)
  from r have p: "take (length h0) h = h0" by (simp add: rel_st_def)
  note ri = read_input[OF t p]
  have rd: "read_row (o_psi_log ao ! sp) mu h = (Inr ?ff, h)"
    unfolding read_row_def using mu(1) by (simp add: bind_st_Inr[where m = "read_float2 (o_psi_log ao ! sp)", OF ri(3)[OF sp(1)]] lift_st_def)
  have rj: "bind_st (read_int1 (o_sp_mu2j ao ! sp)) (\<lambda>js. lift_st (np_get js mu)) h = (Inr ?am, h)"
    using mu(2) by (simp add: bind_st_Inr[where m = "read_int1 (o_sp_mu2j ao ! sp)", OF ri(4)[OF sp(2)]] lift_st_def)
  from set_row_InrD[OF psi] have sp': "sp < length (psi_log p)" by simp
  note c = rel_st_psi_log[OF r sp']
  from write_psi_log_sim[OF f u r psi] obtain h1 where
    h1: "write_row (o_psi_log pot ! sp) mu (map (\<lambda>v. (4 * pi * dr) / (2 * of_int ?am + 1) * v) vff) h
           = (Inr (), h1)" "rel_st h0 pot h1 (p\<lparr>psi_log := psi\<rparr>)"
    by blast
  from store_rescaled_sim[OF t f u h1(2) 3] obtain h' where
    h': "store_rescaled_st ao pot sp mu ?am h1 = (Inr (), h')" "rel_st h0 pot h' p'"
    by blast
  have "lap_mult_st ao pot dr sp (o_psi_log ao ! sp) (o_sp_mu2j ao ! sp) mu h = (Inr (), h')"
    unfolding lap_mult_st_def
    using c(1)
    by (simp add: bind_st_Inr[where m = "read_row (o_psi_log ao ! sp) mu", OF rd]
        bind_st_Inr[where m = "bind_st (read_int1 (o_sp_mu2j ao ! sp)) (\<lambda>js. lift_st (np_get js mu))", OF rj]
        bind_st_Inr[where m = "read_float1 (o_rr ao)", OF ri(1)] g n v
        bind_st_Inr[where m = "write_row (o_psi_log pot ! sp) mu (map (\<lambda>v. (4 * pi * dr) / (2 * of_int ?am + 1) * v) vff)", OF h1(1)] h'(1))
  with h'(2) show ?thesis by blast
qed

lemma abs_ao_simps [simp]:
  "nr (abs_ao h ob) = o_nr ob" "nspecies (abs_ao h ob) = o_nspecies ob" "jmx (abs_ao h ob) = o_jmx ob"
  "length (psi_log (abs_ao h ob)) = length (o_psi_log ob)"
  "length (psi_log_rl (abs_ao h ob)) = length (o_psi_log_rl ob)"
  "length (sp_mu2j (abs_ao h ob)) = length (o_sp_mu2j ob)"
  "length (sp_mu2rcut (abs_ao h ob)) = length (o_sp_mu2rcut ob)"
  by (simp_all add: abs_ao_def)

lemma enumerate_list_nth:
  "i < length xs \<Longrightarrow> enumerate_list xs ! i = (i, xs ! i)"
  by (simp add: enumerate_list_def)

lemma length_enumerate_list [simp]: "length (enumerate_list xs) = length xs"
  by (simp add: enumerate_list_def)

lemma lap_species_sim:
  assumes t: "typed h0 ao" and f: "fresh (length h0) pot" and u: "unaliased pot"
    and r: "rel_st h0 pot h p"
    and sp: "sp < length (o_psi_log ao)"
    and s: "lap_species (abs_ao h0 ao) dr (sp, psi_log (abs_ao h0 ao) ! sp) p = Inr p'"
  shows "\<exists>h'. lap_species_st ao pot dr (sp, o_psi_log ao ! sp) h = (Inr (), h') \<and> rel_st h0 pot h' p'"
proof -
  let ?ao0 = "abs_ao h0 ao"
  let ?mu2ff = "psi_log ?ao0 ! sp"
  from s obtain mu2j where j: "np_get (sp_mu2j ?ao0) sp = Inr mu2j"
    and 1: "for_each (enumerate_list (zip ?mu2ff mu2j)) (lap_mult ?ao0 dr sp) p = Inr p'"
    unfolding lap_species_def prod.case by (blast dest: bind_err_InrD)
  from np_get_InrD[OF j] have sj: "sp < length (o_sp_mu2j ao)" and mu2j: "mu2j = sp_mu2j ?ao0 ! sp"
    by simp_all
  from r have p: "take (length h0) h = h0" by (simp add: rel_st_def)
  note ri = read_input[OF t p]
  let ?n = "min (length ?mu2ff) (length mu2j)"
  have "\<exists>h'. for_each_st (py_range ?n)
           (lap_mult_st ao pot dr sp (o_psi_log ao ! sp) (o_sp_mu2j ao ! sp)) h = (Inr (), h') \<and>
         rel_st h0 pot h' p'"
  proof (rule for_each_sim[where R = "rel_st h0 pot", OF _ _ r 1])
    show "length (py_range ?n) = length (enumerate_list (zip ?mu2ff mu2j))"
      by (simp add: py_range_def)
  next
    fix i h p p'
    assume i: "i < length (enumerate_list (zip ?mu2ff mu2j))" and r: "rel_st h0 pot h p"
      and b: "lap_mult ?ao0 dr sp (enumerate_list (zip ?mu2ff mu2j) ! i) p = Inr p'"
    from i have i': "i < length ?mu2ff" "i < length mu2j" by simp_all
    have x: "enumerate_list (zip ?mu2ff mu2j) ! i = (i, ?mu2ff ! i, sp_mu2j ?ao0 ! sp ! i)"
      using i' mu2j by (simp add: enumerate_list_nth)
    have y: "py_range ?n ! i = i" using i' by (simp add: py_range_def)
    show "\<exists>h'. lap_mult_st ao pot dr sp (o_psi_log ao ! sp) (o_sp_mu2j ao ! sp) (py_range ?n ! i) h
            = (Inr (), h') \<and> rel_st h0 pot h' p'"
      unfolding y
      by (rule lap_mult_sim[OF t f u r _ sp sj i'(1) i'(2)[unfolded mu2j] b[unfolded x]]) simp
  qed
  then obtain h' where h': "for_each_st (py_range ?n)
           (lap_mult_st ao pot dr sp (o_psi_log ao ! sp) (o_sp_mu2j ao ! sp)) h = (Inr (), h')"
      "rel_st h0 pot h' p'"
    by blast
  have "lap_species_st ao pot dr (sp, o_psi_log ao ! sp) h = (Inr (), h')"
    unfolding lap_species_st_def prod.case
    using sj h'(1)
    by (simp add: bind_st_Inr[where m = "read_float2 (o_psi_log ao ! sp)", OF ri(3)[OF sp]]
        bind_st_Inr[where m = "read_int1 (o_sp_mu2j ao ! sp)", OF ri(4)[OF sj]] mu2j)
  with h'(2) show ?thesis by blast
qed

lemma lap_species_loop_sim:
  assumes t: "typed h0 ao" and f: "fresh (length h0) pot" and u: "unaliased pot"
    and r: "rel_st h0 pot h p"
    and s: "for_each (enumerate_list (psi_log (abs_ao h0 ao))) (lap_species (abs_ao h0 ao) dr) p = Inr p'"
  shows "\<exists>h'. for_each_st (enumerate_list (o_psi_log ao)) (lap_species_st ao pot dr) h = (Inr (), h') \<and>
           rel_st h0 pot h' p'"
proof (rule for_each_sim[where R = "rel_st h0 pot", OF _ _ r s])
  show "length (enumerate_list (o_psi_log ao)) = length (enumerate_list (psi_log (abs_ao h0 ao)))"
    by simp
next
  fix i h p p'
  assume i: "i < length (enumerate_list (psi_log (abs_ao h0 ao)))" and r: "rel_st h0 pot h p"
    and b: "lap_species (abs_ao h0 ao) dr (enumerate_list (psi_log (abs_ao h0 ao)) ! i) p = Inr p'"
  from i have i': "i < length (o_psi_log ao)" by simp
  have x: "enumerate_list (psi_log (abs_ao h0 ao)) ! i = (i, psi_log (abs_ao h0 ao) ! i)"
    using i' by (simp add: enumerate_list_nth)
  have y: "enumerate_list (o_psi_log ao) ! i = (i, o_psi_log ao ! i)"
    using i' by (simp add: enumerate_list_nth)
  show "\<exists>h'. lap_species_st ao pot dr (enumerate_list (o_psi_log ao) ! i) h = (Inr (), h') \<and>
          rel_st h0 pot h' p'"
    unfolding y by (rule lap_species_sim[OF t f u r i' b[unfolded x]])
qed

lemma fill_Float1:
  "a < length h \<Longrightarrow> h ! a = Float1 xs \<Longrightarrow>
   fill a x h = (Inr (), h[a := Float1 (replicate (length xs) x)])"
  by (simp add: fill_def read_float1_def bind_st_def)

lemma update_float1_same:
  "b \<noteq> a \<Longrightarrow> float1_of (h[a := c] ! b) = float1_of (h ! b)"
  by simp

lemma fill_sp_mu2rcut_sim:
  assumes t: "typed h0 ao" and f: "fresh (length h0) pot" and u: "unaliased pot"
    and r: "rel_st h0 pot h p"
    and s: "fill_sp_mu2rcut (abs_ao h0 ao) sp p = Inr p'"
  shows "\<exists>h'. fill_sp_mu2rcut_st ao pot sp h = (Inr (), h') \<and> rel_st h0 pot h' p'"
proof -
  let ?ao0 = "abs_ao h0 ao"
  let ?a = "o_sp_mu2rcut pot ! sp"
  from s obtain c where c: "np_get (sp_mu2rcut p) sp = Inr c"
    and 1: "bind_err (np_last (rr ?ao0)) (\<lambda>rmax.
       Inr (p\<lparr>sp_mu2rcut := (sp_mu2rcut p)[sp := replicate (length c) rmax]\<rparr>)) = Inr p'"
    unfolding fill_sp_mu2rcut_def by (blast dest: bind_err_InrD)
  from 1 obtain rmax where rmax: "np_last (rr ?ao0) = Inr rmax"
    and p': "p' = p\<lparr>sp_mu2rcut := (sp_mu2rcut p)[sp := replicate (length c) rmax]\<rparr>"
    by (auto dest: bind_err_InrD)
  from r have p: "take (length h0) h = h0" and ty: "typed h pot" and a: "abs_ao h pot = p"
    by (simp_all add: rel_st_def)
  from np_get_InrD[OF c] a have sp: "sp < length (o_sp_mu2rcut pot)" and cv: "c = sp_mu2rcut p ! sp"
    by auto
  note k = typed_refsD(7)[OF ty sp]
  have "float1_of (h ! ?a) = c" using a sp cv by (auto simp: abs_ao_def)
  then have cell: "h ! ?a = Float1 c" using is_float1E k by metis
  let ?h' = "h[?a := Float1 (replicate (length c) rmax)]"
  have fl: "fill ?a rmax h = (Inr (), ?h')" using fill_Float1 k cell by blast
  have mem: "?a \<in> set (o_sp_mu2rcut pot)" using sp by simp
  then have mem': "?a \<in> set (refs pot)" by (simp add: refs_def)
  have d: "distinct (o_sp_mu2rcut pot)" "o_rr pot \<noteq> ?a" "o_pp pot \<noteq> ?a" "o_sp2rcut pot \<noteq> ?a"
    using u mem by (auto simp: unaliased_def)
  have k1: "?a < length h" "is_float1 (h ! ?a)" using k by simp_all
  note o = update_float1_other[OF k1]
  have e1: "map (\<lambda>b. float1_of (?h' ! b)) (o_sp_mu2rcut pot) =
            (sp_mu2rcut p)[sp := replicate (length c) rmax]"
    unfolding map_nth_update_distinct[OF d(1) sp]
    using a k1(1) by (auto simp: abs_ao_def)
  have "abs_ao ?h' pot = p'"
    unfolding abs_ao_def e1 o update_float1_same[OF d(2)] update_float1_same[OF d(3)]
      update_float1_same[OF d(4)] p'
    using a by (auto simp: abs_ao_def)
  moreover have "typed ?h' pot" by (rule typed_update_float1[OF ty k1])
  moreover have "take (length h0) ?h' = h0" by (rule fresh_take[OF f mem' p])
  ultimately have rel: "rel_st h0 pot ?h' p'" by (simp add: rel_st_def)
  note ri = read_input(1)[OF t p]
  have "fill_sp_mu2rcut_st ao pot sp h = (Inr (), ?h')"
    unfolding fill_sp_mu2rcut_st_def
    using sp by (simp add: bind_st_Inr[where m = "read_float1 (o_rr ao)", OF ri] rmax fl)
  with rel show ?thesis by blast
qed

lemma fill_sp2rcut_sim:
  assumes f: "fresh (length h0) pot" and u: "unaliased pot" and r: "rel_st h0 pot h p"
  shows "\<exists>h'. fill (o_sp2rcut pot) x h = (Inr (), h') \<and>
           rel_st h0 pot h' (p\<lparr>sp2rcut := replicate (length (sp2rcut p)) x\<rparr>)"
proof -
  let ?a = "o_sp2rcut pot"
  from r have p: "take (length h0) h = h0" and ty: "typed h pot" and a: "abs_ao h pot = p"
    by (simp_all add: rel_st_def)
  note k = typed_refsD(3,10)[OF ty]
  have "float1_of (h ! ?a) = sp2rcut p" using a by (auto simp: abs_ao_def)
  then have cell: "h ! ?a = Float1 (sp2rcut p)" using is_float1E k(2) by metis
  let ?h' = "h[?a := Float1 (replicate (length (sp2rcut p)) x)]"
  have fl: "fill ?a x h = (Inr (), ?h')" using fill_Float1 k cell by blast
  have mem': "?a \<in> set (refs pot)" by (simp add: refs_def)
  have d: "?a \<notin> set (o_sp_mu2rcut pot)" "o_rr pot \<noteq> ?a" "o_pp pot \<noteq> ?a"
    using u by (auto simp: unaliased_def)
  note o = update_float1_other[OF k]
  have e1: "map (\<lambda>b. float1_of (?h' ! b)) (o_sp_mu2rcut pot) = sp_mu2rcut p"
    unfolding map_nth_update_notin[OF d(1)] using a by (auto simp: abs_ao_def)
  have "abs_ao ?h' pot = p\<lparr>sp2rcut := replicate (length (sp2rcut p)) x\<rparr>"
    unfolding abs_ao_def e1 o update_float1_same[OF d(2)] update_float1_same[OF d(3)]
    using a k(1) by (auto simp: abs_ao_def)
  moreover have "typed ?h' pot" by (rule typed_update_float1[OF ty k])
  moreover have "take (length h0) ?h' = h0" by (rule fresh_take[OF f mem' p])
  ultimately show ?thesis using fl by (simp add: rel_st_def)
qed

lemma fill_rcut_sim:
  assumes t: "typed h0 ao" and f: "fresh (length h0) pot" and u: "unaliased pot"
    and r: "rel_st h0 pot h p"
    and s: "fill_rcut (abs_ao h0 ao) p = Inr p'"
  shows "\<exists>h'. fill_rcut_st ao pot h = (Inr (), h') \<and> rel_st h0 pot h' p'"
proof -
  let ?ao0 = "abs_ao h0 ao"
  from s obtain p1 where p1: "for_each (py_range (nspecies ?ao0)) (fill_sp_mu2rcut ?ao0) p = Inr p1"
    and 1: "bind_err (np_last (rr ?ao0)) (\<lambda>rmax.
       Inr (p1\<lparr>sp2rcut := replicate (length (sp2rcut p1)) rmax\<rparr>)) = Inr p'"
    unfolding fill_rcut_def by (blast dest: bind_err_InrD)
  from 1 obtain rmax where rmax: "np_last (rr ?ao0) = Inr rmax"
    and p': "p' = p1\<lparr>sp2rcut := replicate (length (sp2rcut p1)) rmax\<rparr>"
    by (auto dest: bind_err_InrD)
  have "\<exists>h'. for_each_st (py_range (o_nspecies ao)) (fill_sp_mu2rcut_st ao pot) h = (Inr (), h') \<and>
          rel_st h0 pot h' p1"
  proof (rule for_each_sim[where R = "rel_st h0 pot", OF _ _ r p1])
    show "length (py_range (o_nspecies ao)) = length (py_range (nspecies ?ao0))" by simp
  next
    fix i h p p'
    assume "i < length (py_range (nspecies ?ao0))" "rel_st h0 pot h p"
      "fill_sp_mu2rcut ?ao0 (py_range (nspecies ?ao0) ! i) p = Inr p'"
    then show "\<exists>h'. fill_sp_mu2rcut_st ao pot (py_range (o_nspecies ao) ! i) h = (Inr (), h') \<and>
            rel_st h0 pot h' p'"
      using fill_sp_mu2rcut_sim[OF t f u] by simp
  qed
  then obtain h1 where h1: "for_each_st (py_range (o_nspecies ao)) (fill_sp_mu2rcut_st ao pot) h = (Inr (), h1)"
    "rel_st h0 pot h1 p1" by blast
  from fill_sp2rcut_sim[OF f u h1(2), of rmax] obtain h' where
    h': "fill (o_sp2rcut pot) rmax h1 = (Inr (), h')" "rel_st h0 pot h' p'"
    unfolding p' by blast
  from h1(2) have pre: "take (length h0) h1 = h0" by (simp add: rel_st_def)
  note ri = read_input(1)[OF t pre]
  have "fill_rcut_st ao pot h = (Inr (), h')"
    unfolding fill_rcut_st_def
    by (simp add: bind_st_Inr[where m = "for_each_st (py_range (o_nspecies ao)) (fill_sp_mu2rcut_st ao pot)", OF h1(1)]
        bind_st_Inr[where m = "read_float1 (o_rr ao)", OF ri] rmax h'(1))
  with h'(2) show ?thesis by blast
qed

subsection \<open>What the copy denotes\<close>

lemma index_of_nth: "a \<in> set as \<Longrightarrow> as ! index_of as a = a"
  unfolding index_of_def by (induction as) auto

lemma index_of_inj: "a \<in> set as \<Longrightarrow> b \<in> set as \<Longrightarrow> index_of as a = index_of as b \<Longrightarrow> a = b"
  by (metis index_of_nth)

lemma abs_ao_relocate:
  assumes "\<And>a. a \<in> set (refs ob) \<Longrightarrow> h1 ! new a = h0 ! a"
  shows "abs_ao h1 (relocate new ob) = abs_ao h0 ob"
proof -
  have m: "\<And>f xs. set xs \<subseteq> set (refs ob) \<Longrightarrow> map (\<lambda>a. f (h1 ! a)) (map new xs) = map (\<lambda>a. f (h0 ! a)) xs"
    using assms by (auto simp: subset_iff)
  have s: "set (o_sp_mu2j ob) \<subseteq> set (refs ob)" "set (o_psi_log ob) \<subseteq> set (refs ob)"
    "set (o_psi_log_rl ob) \<subseteq> set (refs ob)" "set (o_sp_mu2rcut ob) \<subseteq> set (refs ob)"
    by (auto simp: refs_def)
  have e: "h1 ! new (o_rr ob) = h0 ! o_rr ob" "h1 ! new (o_pp ob) = h0 ! o_pp ob"
    "h1 ! new (o_sp2nmult ob) = h0 ! o_sp2nmult ob" "h1 ! new (o_sp2rcut ob) = h0 ! o_sp2rcut ob"
    using assms by (simp_all add: refs_def)
  have r: "o_nr (relocate new ob) = o_nr ob" "o_nspecies (relocate new ob) = o_nspecies ob"
    "o_jmx (relocate new ob) = o_jmx ob" "o_rr (relocate new ob) = new (o_rr ob)"
    "o_pp (relocate new ob) = new (o_pp ob)" "o_sp2nmult (relocate new ob) = new (o_sp2nmult ob)"
    "o_sp2rcut (relocate new ob) = new (o_sp2rcut ob)"
    "o_sp_mu2j (relocate new ob) = map new (o_sp_mu2j ob)"
    "o_psi_log (relocate new ob) = map new (o_psi_log ob)"
    "o_psi_log_rl (relocate new ob) = map new (o_psi_log_rl ob)"
    "o_sp_mu2rcut (relocate new ob) = map new (o_sp_mu2rcut ob)"
    by (simp_all add: relocate_def)
  show ?thesis
    unfolding abs_ao_def r e m[OF s(1)] m[OF s(2)] m[OF s(3)] m[OF s(4)] ..
qed

lemma typed_relocate:
  assumes t: "typed h0 ob"
    and c: "\<And>a. a \<in> set (refs ob) \<Longrightarrow> h1 ! new a = h0 ! a \<and> new a < length h1"
  shows "typed h1 (relocate new ob)"
proof -
  have s: "set (o_sp_mu2j ob) \<subseteq> set (refs ob)" "set (o_psi_log ob) \<subseteq> set (refs ob)"
    "set (o_psi_log_rl ob) \<subseteq> set (refs ob)" "set (o_sp_mu2rcut ob) \<subseteq> set (refs ob)"
    "o_rr ob \<in> set (refs ob)" "o_pp ob \<in> set (refs ob)" "o_sp2nmult ob \<in> set (refs ob)"
    "o_sp2rcut ob \<in> set (refs ob)"
    by (auto simp: refs_def)
  have v: "list_all (\<lambda>a. a < length h1) (refs (relocate new ob))"
    unfolding refs_relocate using c by (simp add: list_all_iff)
  show ?thesis
    unfolding typed_def
    using t v c s
    by (auto simp: typed_def relocate_def list_all_iff subset_iff)
qed

lemma unaliased_relocate:
  assumes u: "unaliased ob" and i: "inj_on new (set (refs ob))"
  shows "unaliased (relocate new ob)"
proof -
  have s1: "set (o_psi_log ob @ o_psi_log_rl ob) \<subseteq> set (refs ob)"
    and s2: "set ([o_rr ob, o_sp2rcut ob] @ o_sp_mu2rcut ob) \<subseteq> set (refs ob)"
    and s3: "set (o_pp ob # o_sp2rcut ob # o_sp_mu2rcut ob) \<subseteq> set (refs ob)"
    by (auto simp: refs_def)
  have d1: "distinct (map new (o_psi_log ob @ o_psi_log_rl ob))"
    using u inj_on_subset[OF i s1] by (simp add: unaliased_def distinct_map del: map_append)
  have d2: "distinct (map new ([o_rr ob, o_sp2rcut ob] @ o_sp_mu2rcut ob))"
    using u inj_on_subset[OF i s2] by (simp add: unaliased_def distinct_map del: map_append)
  have d3: "new (o_pp ob) \<notin> new ` set (o_sp2rcut ob # o_sp_mu2rcut ob)"
  proof
    assume "new (o_pp ob) \<in> new ` set (o_sp2rcut ob # o_sp_mu2rcut ob)"
    then obtain b where b: "b \<in> set (o_sp2rcut ob # o_sp_mu2rcut ob)" "new (o_pp ob) = new b" by auto
    have "o_pp ob = b"
      using inj_onD[OF inj_on_subset[OF i s3] b(2)] b(1) by simp
    then show False using u b(1) by (simp add: unaliased_def)
  qed
  show ?thesis
    using d1 d2 d3 by (simp add: unaliased_def relocate_def)
qed

lemma deepcopy_rel:
  assumes t: "typed h0 ao" and u: "unaliased ao" and d: "deepcopy ao h0 = (r, h1)"
  shows "\<exists>pot. r = Inr pot \<and> fresh (length h0) pot \<and> unaliased pot \<and>
           rel_st h0 pot h1 (abs_ao h0 ao)"
proof -
  let ?as = "remdups (refs ao)"
  let ?new = "\<lambda>a. length h0 + index_of ?as a"
  let ?pot = "relocate ?new ao"
  from d have h1: "h1 = h0 @ map (\<lambda>a. if a < length h0 then h0 ! a else Float1 []) ?as"
    and rr: "r = Inr ?pot"
    by (simp_all add: deepcopy_def Let_def)
  have valid: "\<And>a. a \<in> set (refs ao) \<Longrightarrow> a < length h0"
    using t by (simp add: typed_def list_all_iff)
  have c: "\<And>a. a \<in> set (refs ao) \<Longrightarrow> h1 ! ?new a = h0 ! a \<and> ?new a < length h1"
  proof -
    fix a assume a: "a \<in> set (refs ao)"
    then have m: "a \<in> set ?as" by simp
    have i: "index_of ?as a < length ?as" using m by (rule index_of_less)
    have "h1 ! ?new a = (if ?as ! index_of ?as a < length h0 then h0 ! (?as ! index_of ?as a) else Float1 [])"
      unfolding h1 using i by (simp add: nth_append)
    then show "h1 ! ?new a = h0 ! a \<and> ?new a < length h1"
      using index_of_nth[OF m] valid[OF a] i h1 by simp
  qed
  have inj: "inj_on ?new (set (refs ao))"
  proof (rule inj_onI)
    fix a b assume "a \<in> set (refs ao)" "b \<in> set (refs ao)" "?new a = ?new b"
    then show "a = b" using index_of_inj[of a ?as b] by simp
  qed
  have f: "fresh (length h0) ?pot"
    by (simp add: fresh_def refs_relocate list_all_iff)
  have "take (length h0) h1 = h0" using h1 by simp
  moreover have "typed h1 ?pot" by (rule typed_relocate[OF t c])
  moreover have "abs_ao h1 ?pot = abs_ao h0 ao" by (rule abs_ao_relocate) (simp add: c)
  ultimately have "rel_st h0 ?pot h1 (abs_ao h0 ao)" by (simp add: rel_st_def)
  then show ?thesis using rr f unaliased_relocate[OF u inj] by blast
qed

lemma abs_ao_input:
  assumes t: "typed h0 ao" and p: "take (length h0) h = h0"
  shows "abs_ao h ao = abs_ao h0 ao"
proof -
  have "\<And>a. a \<in> set (refs ao) \<Longrightarrow> h ! a = h0 ! a"
    using t take_prefixD(2)[OF p] by (simp add: typed_def list_all_iff)
  then have "abs_ao h (relocate (\<lambda>a. a) ao) = abs_ao h0 ao" by (rule abs_ao_relocate)
  moreover have "relocate (\<lambda>a. a) ao = ao" by (simp add: relocate_def)
  ultimately show ?thesis by simp
qed

lemma lap_st_refines:
  assumes t: "typed h ao" and u: "unaliased ao"
    and s: "ao_log_hartree_lap (abs_ao h ao) = Inr p'"
  shows "\<exists>pot h'. ao_log_hartree_lap_st ao h = (Inr pot, h') \<and> abs_ao h' pot = p' \<and>
           abs_ao h' ao = abs_ao h ao \<and> take (length h) h' = h"
proof -
  let ?ao0 = "abs_ao h ao"
  obtain r h1 where d: "deepcopy ao h = (r, h1)" by (cases "deepcopy ao h")
  from deepcopy_rel[OF t u d] obtain pot where pot: "r = Inr pot" "fresh (length h) pot"
    "unaliased pot" "rel_st h pot h1 ?ao0" by blast
  from s obtain r1 where r1: "np_get (rr ?ao0) 1 = Inr r1"
    and 1: "bind_err (np_get (rr ?ao0) 0) (\<lambda>r0.
      let dr = ln (r1 / r0) in
      bind_err (for_each (enumerate_list (psi_log ?ao0)) (lap_species ?ao0 dr) ?ao0) (\<lambda>ao_pot.
        fill_rcut ?ao0 ao_pot)) = Inr p'"
    unfolding ao_log_hartree_lap_def Let_def by (blast dest: bind_err_InrD)
  from 1 obtain r0 where r0: "np_get (rr ?ao0) 0 = Inr r0"
    and 2: "bind_err (for_each (enumerate_list (psi_log ?ao0)) (lap_species ?ao0 (ln (r1 / r0))) ?ao0)
      (\<lambda>ao_pot. fill_rcut ?ao0 ao_pot) = Inr p'"
    unfolding Let_def by (blast dest: bind_err_InrD)
  from 2 obtain q where q: "for_each (enumerate_list (psi_log ?ao0)) (lap_species ?ao0 (ln (r1 / r0))) ?ao0 = Inr q"
    "fill_rcut ?ao0 q = Inr p'"
    by (blast dest: bind_err_InrD)
  from lap_species_loop_sim[OF t pot(2,3,4) q(1)] obtain h2 where
    h2: "for_each_st (enumerate_list (o_psi_log ao)) (lap_species_st ao pot (ln (r1 / r0))) h1 = (Inr (), h2)"
    "rel_st h pot h2 q" by blast
  from fill_rcut_sim[OF t pot(2,3) h2(2) q(2)] obtain h' where
    h': "fill_rcut_st ao pot h2 = (Inr (), h')" "rel_st h pot h' p'" by blast
  from pot(4) have pre: "take (length h) h1 = h" by (simp add: rel_st_def)
  note ri = read_input(1)[OF t pre]
  have "ao_log_hartree_lap_st ao h = lift_st (Inr pot) h'"
    unfolding ao_log_hartree_lap_st_def
    by (simp only: bind_st_Inr[where m = "deepcopy ao", OF d[unfolded pot(1)]]
        bind_st_Inr[where m = "read_float1 (o_rr ao)", OF ri] r1 r0 Let_def bind_lift_Inr
        bind_st_Inr[where m = "for_each_st (enumerate_list (o_psi_log ao)) (lap_species_st ao pot (ln (r1 / r0)))", OF h2(1)]
        bind_st_Inr[where m = "fill_rcut_st ao pot", OF h'(1)])
  then have "ao_log_hartree_lap_st ao h = (Inr pot, h')" by (simp add: lift_st_def)
  moreover from h'(2) have "abs_ao h' pot = p'" "take (length h) h' = h" by (simp_all add: rel_st_def)
  moreover from this(2) have "abs_ao h' ao = abs_ao h ao" by (rule abs_ao_input[OF t])
  ultimately show ?thesis by blast
qed

subsection \<open>The transform solver on the store\<close>

lemma sbt_mult_sim:
  assumes t: "typed h0 ao" and f: "fresh (length h0) pot" and u: "unaliased pot"
    and r: "rel_st h0 pot h p"
    and sp: "sp < length (o_psi_log ao)" "sp < length (o_sp_mu2j ao)"
    and mu: "mu < length (psi_log (abs_ao h0 ao) ! sp)" "mu < length (sp_mu2j (abs_ao h0 ao) ! sp)"
    and s: "sbt_mult sbt (abs_ao h0 ao) sp
              (mu, psi_log (abs_ao h0 ao) ! sp ! mu, sp_mu2j (abs_ao h0 ao) ! sp ! mu) p = Inr p'"
  shows "\<exists>h'. sbt_mult_st sbt ao pot sp (o_psi_log ao ! sp) (o_sp_mu2j ao ! sp) mu h = (Inr (), h') \<and>
           rel_st h0 pot h' p'"
proof -
  let ?ao0 = "abs_ao h0 ao"
  let ?ff = "psi_log ?ao0 ! sp ! mu"
  let ?am = "sp_mu2j ?ao0 ! sp ! mu"
  from s obtain fp where fp: "sbt ?ff ?am 1 = Inr fp"
    and 1: "bind_err (np_broadcast (/) fp (map (\<lambda>p. p ^ 2) (pp ?ao0))) (\<lambda>gp.
     bind_err (sbt gp ?am (- 1)) (\<lambda>v.
     bind_err (set_row (psi_log p) sp mu (map (\<lambda>x. (4 * pi) * x) v)) (\<lambda>psi.
       store_rescaled ?ao0 sp mu ?am (p\<lparr>psi_log := psi\<rparr>)))) = Inr p'"
    unfolding sbt_mult_def prod.case by (blast dest: bind_err_InrD)
  from 1 obtain gp where gp: "np_broadcast (/) fp (map (\<lambda>p. p ^ 2) (pp ?ao0)) = Inr gp"
    and 2: "bind_err (sbt gp ?am (- 1)) (\<lambda>v.
     bind_err (set_row (psi_log p) sp mu (map (\<lambda>x. (4 * pi) * x) v)) (\<lambda>psi.
       store_rescaled ?ao0 sp mu ?am (p\<lparr>psi_log := psi\<rparr>))) = Inr p'"
    by (blast dest: bind_err_InrD)
  from 2 obtain v where v: "sbt gp ?am (- 1) = Inr v"
    and 3: "bind_err (set_row (psi_log p) sp mu (map (\<lambda>x. (4 * pi) * x) v)) (\<lambda>psi.
       store_rescaled ?ao0 sp mu ?am (p\<lparr>psi_log := psi\<rparr>)) = Inr p'"
    by (blast dest: bind_err_InrD)
  from 3 obtain psi where psi: "set_row (psi_log p) sp mu (map (\<lambda>x. (4 * pi) * x) v) = Inr psi"
    and 4: "store_rescaled ?ao0 sp mu ?am (p\<lparr>psi_log := psi\<rparr>) = Inr p'"
    by (blast dest: bind_err_InrD)
  from r have p: "take (length h0) h = h0" by (simp add: rel_st_def)
  note ri = read_input[OF t p]
  have rd: "read_row (o_psi_log ao ! sp) mu h = (Inr ?ff, h)"
    unfolding read_row_def using mu(1)
    by (simp add: bind_st_Inr[where m = "read_float2 (o_psi_log ao ! sp)", OF ri(3)[OF sp(1)]] lift_st_def)
  have rj: "bind_st (read_int1 (o_sp_mu2j ao ! sp)) (\<lambda>js. lift_st (np_get js mu)) h = (Inr ?am, h)"
    using mu(2)
    by (simp add: bind_st_Inr[where m = "read_int1 (o_sp_mu2j ao ! sp)", OF ri(4)[OF sp(2)]] lift_st_def)
  from set_row_InrD[OF psi] have sp': "sp < length (psi_log p)" by simp
  note c = rel_st_psi_log[OF r sp']
  have g: "np_get (o_psi_log pot) sp = Inr (o_psi_log pot ! sp)" using c(1) by simp
  from write_psi_log_sim[OF f u r psi] obtain h1 where
    h1: "write_row (o_psi_log pot ! sp) mu (map (\<lambda>x. (4 * pi) * x) v) h = (Inr (), h1)"
      "rel_st h0 pot h1 (p\<lparr>psi_log := psi\<rparr>)"
    by blast
  from store_rescaled_sim[OF t f u h1(2) 4] obtain h' where
    h': "store_rescaled_st ao pot sp mu ?am h1 = (Inr (), h')" "rel_st h0 pot h' p'"
    by blast
  have "sbt_mult_st sbt ao pot sp (o_psi_log ao ! sp) (o_sp_mu2j ao ! sp) mu h = (Inr (), h')"
    unfolding sbt_mult_st_def
    by (simp only: bind_st_Inr[where m = "read_row (o_psi_log ao ! sp) mu", OF rd]
        bind_st_Inr[where m = "bind_st (read_int1 (o_sp_mu2j ao ! sp)) (\<lambda>js. lift_st (np_get js mu))", OF rj]
        bind_st_Inr[where m = "read_float1 (o_pp ao)", OF ri(2)] fp gp v g bind_lift_Inr
        bind_st_Inr[where m = "write_row (o_psi_log pot ! sp) mu (map (\<lambda>x. (4 * pi) * x) v)", OF h1(1)] h'(1))
  with h'(2) show ?thesis by blast
qed

lemma sbt_species_sim:
  assumes t: "typed h0 ao" and f: "fresh (length h0) pot" and u: "unaliased pot"
    and r: "rel_st h0 pot h p"
    and sp: "sp < length (o_psi_log ao)"
    and s: "sbt_species sbt (abs_ao h0 ao) (sp, psi_log (abs_ao h0 ao) ! sp) p = Inr p'"
  shows "\<exists>h'. sbt_species_st sbt ao pot (sp, o_psi_log ao ! sp) h = (Inr (), h') \<and> rel_st h0 pot h' p'"
proof -
  let ?ao0 = "abs_ao h0 ao"
  let ?mu2ff = "psi_log ?ao0 ! sp"
  from s obtain mu2j where j: "np_get (sp_mu2j ?ao0) sp = Inr mu2j"
    and 1: "for_each (enumerate_list (zip ?mu2ff mu2j)) (sbt_mult sbt ?ao0 sp) p = Inr p'"
    unfolding sbt_species_def prod.case by (blast dest: bind_err_InrD)
  from np_get_InrD[OF j] have sj: "sp < length (o_sp_mu2j ao)" and mu2j: "mu2j = sp_mu2j ?ao0 ! sp"
    by simp_all
  from r have p: "take (length h0) h = h0" by (simp add: rel_st_def)
  note ri = read_input[OF t p]
  let ?n = "min (length ?mu2ff) (length mu2j)"
  have "\<exists>h'. for_each_st (py_range ?n)
           (sbt_mult_st sbt ao pot sp (o_psi_log ao ! sp) (o_sp_mu2j ao ! sp)) h = (Inr (), h') \<and>
         rel_st h0 pot h' p'"
  proof (rule for_each_sim[where R = "rel_st h0 pot", OF _ _ r 1])
    show "length (py_range ?n) = length (enumerate_list (zip ?mu2ff mu2j))"
      by (simp add: py_range_def)
  next
    fix i h p p'
    assume i: "i < length (enumerate_list (zip ?mu2ff mu2j))" and r: "rel_st h0 pot h p"
      and b: "sbt_mult sbt ?ao0 sp (enumerate_list (zip ?mu2ff mu2j) ! i) p = Inr p'"
    from i have i': "i < length ?mu2ff" "i < length mu2j" by simp_all
    have x: "enumerate_list (zip ?mu2ff mu2j) ! i = (i, ?mu2ff ! i, sp_mu2j ?ao0 ! sp ! i)"
      using i' mu2j by (simp add: enumerate_list_nth)
    have y: "py_range ?n ! i = i" using i' by (simp add: py_range_def)
    show "\<exists>h'. sbt_mult_st sbt ao pot sp (o_psi_log ao ! sp) (o_sp_mu2j ao ! sp) (py_range ?n ! i) h
            = (Inr (), h') \<and> rel_st h0 pot h' p'"
      unfolding y
      by (rule sbt_mult_sim[OF t f u r sp sj i'(1) i'(2)[unfolded mu2j] b[unfolded x]])
  qed
  then obtain h' where h': "for_each_st (py_range ?n)
           (sbt_mult_st sbt ao pot sp (o_psi_log ao ! sp) (o_sp_mu2j ao ! sp)) h = (Inr (), h')"
      "rel_st h0 pot h' p'"
    by blast
  have "sbt_species_st sbt ao pot (sp, o_psi_log ao ! sp) h = (Inr (), h')"
    unfolding sbt_species_st_def prod.case
    using sj h'(1)
    by (simp add: bind_st_Inr[where m = "read_float2 (o_psi_log ao ! sp)", OF ri(3)[OF sp]]
        bind_st_Inr[where m = "read_int1 (o_sp_mu2j ao ! sp)", OF ri(4)[OF sj]] mu2j)
  with h'(2) show ?thesis by blast
qed

lemma sbt_species_loop_sim:
  assumes t: "typed h0 ao" and f: "fresh (length h0) pot" and u: "unaliased pot"
    and r: "rel_st h0 pot h p"
    and s: "for_each (enumerate_list (psi_log (abs_ao h0 ao))) (sbt_species sbt (abs_ao h0 ao)) p = Inr p'"
  shows "\<exists>h'. for_each_st (enumerate_list (o_psi_log ao)) (sbt_species_st sbt ao pot) h = (Inr (), h') \<and>
           rel_st h0 pot h' p'"
proof (rule for_each_sim[where R = "rel_st h0 pot", OF _ _ r s])
  show "length (enumerate_list (o_psi_log ao)) = length (enumerate_list (psi_log (abs_ao h0 ao)))"
    by simp
next
  fix i h p p'
  assume i: "i < length (enumerate_list (psi_log (abs_ao h0 ao)))" and r: "rel_st h0 pot h p"
    and b: "sbt_species sbt (abs_ao h0 ao) (enumerate_list (psi_log (abs_ao h0 ao)) ! i) p = Inr p'"
  from i have i': "i < length (o_psi_log ao)" by simp
  have x: "enumerate_list (psi_log (abs_ao h0 ao)) ! i = (i, psi_log (abs_ao h0 ao) ! i)"
    using i' by (simp add: enumerate_list_nth)
  have y: "enumerate_list (o_psi_log ao) ! i = (i, o_psi_log ao ! i)"
    using i' by (simp add: enumerate_list_nth)
  show "\<exists>h'. sbt_species_st sbt ao pot (enumerate_list (o_psi_log ao) ! i) h = (Inr (), h') \<and>
          rel_st h0 pot h' p'"
    unfolding y by (rule sbt_species_sim[OF t f u r i' b[unfolded x]])
qed

lemma sbt_st_refines:
  assumes t: "typed h ao" and u: "unaliased ao"
    and s: "ao_log_hartree_sbt sbt_c (abs_ao h ao) = Inr p'"
  shows "\<exists>pot h'. ao_log_hartree_sbt_st sbt_c ao h = (Inr pot, h') \<and> abs_ao h' pot = p' \<and>
           abs_ao h' ao = abs_ao h ao \<and> take (length h) h' = h"
proof -
  let ?ao0 = "abs_ao h ao"
  from s obtain sbt where c: "sbt_c (rr ?ao0) (pp ?ao0) (jmx ?ao0) = Inr sbt"
    and 1: "bind_err (for_each (enumerate_list (psi_log ?ao0)) (sbt_species sbt ?ao0) ?ao0)
      (\<lambda>ao_pot. fill_rcut ?ao0 ao_pot) = Inr p'"
    unfolding ao_log_hartree_sbt_def Let_def by (blast dest: bind_err_InrD)
  from 1 obtain q where q: "for_each (enumerate_list (psi_log ?ao0)) (sbt_species sbt ?ao0) ?ao0 = Inr q"
    "fill_rcut ?ao0 q = Inr p'"
    by (blast dest: bind_err_InrD)
  obtain r h1 where d: "deepcopy ao h = (r, h1)" by (cases "deepcopy ao h")
  from deepcopy_rel[OF t u d] obtain pot where pot: "r = Inr pot" "fresh (length h) pot"
    "unaliased pot" "rel_st h pot h1 ?ao0" by blast
  from sbt_species_loop_sim[OF t pot(2,3,4) q(1)] obtain h2 where
    h2: "for_each_st (enumerate_list (o_psi_log ao)) (sbt_species_st sbt ao pot) h1 = (Inr (), h2)"
    "rel_st h pot h2 q" by blast
  from fill_rcut_sim[OF t pot(2,3) h2(2) q(2)] obtain h' where
    h': "fill_rcut_st ao pot h2 = (Inr (), h')" "rel_st h pot h' p'" by blast
  have pre: "take (length h) h = h" by simp
  note ri = read_input(1,2)[OF t pre]
  have c': "sbt_c (rr ?ao0) (pp ?ao0) (o_jmx ao) = Inr sbt" using c by simp
  have "ao_log_hartree_sbt_st sbt_c ao h = lift_st (Inr pot) h'"
    unfolding ao_log_hartree_sbt_st_def
    by (simp only: bind_st_Inr[where m = "deepcopy ao", OF d[unfolded pot(1)]]
        bind_st_Inr[where m = "read_float1 (o_rr ao)", OF ri(1)]
        bind_st_Inr[where m = "read_float1 (o_pp ao)", OF ri(2)] c' bind_lift_Inr
        bind_st_Inr[where m = "for_each_st (enumerate_list (o_psi_log ao)) (sbt_species_st sbt ao pot)", OF h2(1)]
        bind_st_Inr[where m = "fill_rcut_st ao pot", OF h'(1)])
  then have "ao_log_hartree_sbt_st sbt_c ao h = (Inr pot, h')" by (simp add: lift_st_def)
  moreover from h'(2) have "abs_ao h' pot = p'" "take (length h) h' = h" by (simp_all add: rel_st_def)
  moreover from this(2) have "abs_ao h' ao = abs_ao h ao" by (rule abs_ao_input[OF t])
  ultimately show ?thesis by blast
qed

lemma typed_valid: "typed h ao \<Longrightarrow> list_all (\<lambda>a. a < length h) (refs ao)"
  by (simp add: typed_def)

lemma store_example_wf:
  "typed store_example obj_example" "unaliased obj_example"
  "wf_ao (abs_ao store_example obj_example)" "wf_pp (abs_ao store_example obj_example)"
  "wf_jmx (abs_ao store_example obj_example)"
  "example_sbt_c (rr (abs_ao store_example obj_example)) (pp (abs_ao store_example obj_example))
     (jmx (abs_ao store_example obj_example)) = Inr (example_engine 0)"
  "engine_contract (example_engine 0) (nr (abs_ao store_example obj_example)) 0"
  "jmx (abs_ao store_example obj_example) = 0"
  by (simp_all add: typed_def unaliased_def wf_ao_def wf_pp_def wf_jmx_def abs_ao_def refs_def
      store_example_def obj_example_def example_sbt_c_def engine_contract_def example_engine_def)

subsection \<open>Cutoffs and rescaled rows with any collaborator\<close>

lemma for_each_indexed:
  assumes "I 0 s0"
    and "\<And>i s s'. i < length xs \<Longrightarrow> I i s \<Longrightarrow> body (xs ! i) s = Inr s' \<Longrightarrow> I (Suc i) s'"
    and "for_each xs body s0 = Inr s'"
  shows "I (length xs) s'"
  using assms
proof (induction xs arbitrary: s0 I)
  case Nil
  then show ?case by simp
next
  case (Cons x xs)
  from Cons.prems(3) obtain s1 where s1: "body x s0 = Inr s1" "for_each xs body s1 = Inr s'"
    by (auto dest: bind_err_InrD)
  have a: "I (Suc 0) s1" using Cons.prems(2)[of 0 s0 s1] Cons.prems(1) s1(1) by simp
  have "(\<lambda>i. I (Suc i)) (length xs) s'"
  proof (rule Cons.IH[where I = "\<lambda>i. I (Suc i)", OF a _ s1(2)])
    fix i s s'' assume "i < length xs" "I (Suc i) s" "body (xs ! i) s = Inr s''"
    then show "I (Suc (Suc i)) s''" using Cons.prems(2)[of "Suc i" s s''] by simp
  qed
  then show ?case by simp
qed

lemma set_row_result:
  assumes "set_row a sp mu v = Inr a'"
  shows "\<exists>w. a' = a[sp := (a ! sp)[mu := w]] \<and> sp < length a \<and> mu < length (a ! sp) \<and>
           (length v = length (a ! sp ! mu) \<and> w = v \<or>
            length v = 1 \<and> w = replicate (length (a ! sp ! mu)) (hd v))"
proof -
  from assms obtain m where m: "np_get a sp = Inr m"
    and 1: "bind_err (np_get m mu) (\<lambda>row.
       if length v = length row then Inr (a[sp := m[mu := v]])
       else if length v = 1 then Inr (a[sp := m[mu := replicate (length row) (hd v)]])
       else Inl ValueError) = Inr a'"
    unfolding set_row_def by (blast dest: bind_err_InrD)
  from 1 obtain row where row: "np_get m mu = Inr row"
    and 2: "(if length v = length row then Inr (a[sp := m[mu := v]])
       else if length v = 1 then Inr (a[sp := m[mu := replicate (length row) (hd v)]])
       else Inl ValueError) = Inr a'"
    by (blast dest: bind_err_InrD)
  from np_get_InrD[OF m] have sp: "sp < length a" "m = a ! sp" by simp_all
  from np_get_InrD[OF row] have mu: "mu < length m" "row = m ! mu" by simp_all
  show ?thesis
    using 2 sp mu by (cases "length v = length row"; cases "length v = 1") auto
qed

lemma nth2_update_same:
  "sp < length a \<Longrightarrow> mu < length (a ! sp) \<Longrightarrow> a[sp := (a ! sp)[mu := w]] ! sp ! mu = w"
  by simp

lemma nth2_update_other:
  "(s, m) \<noteq> (sp, mu) \<Longrightarrow> a[sp := (a ! sp)[mu := w]] ! s ! m = a ! s ! m"
  by (cases "s = sp"; cases "sp < length a") (auto simp: list_update_beyond not_less)

lemma store_rescaled_InrD:
  assumes s: "store_rescaled ao sp mu am q = Inr q'" and n: "2 \<le> length (rr ao)"
  shows "\<exists>w. q' = q\<lparr>psi_log_rl := (psi_log_rl q)[sp := (psi_log_rl q ! sp)[mu := w]]\<rparr> \<and>
           sp < length (psi_log_rl q) \<and> mu < length (psi_log_rl q ! sp) \<and>
           (\<forall>ir<length (psi_log q ! sp ! mu).
              w ! ir = psi_log q ! sp ! mu ! ir / power_int (rr ao ! ir) am)"
proof -
  let ?ys = "map (\<lambda>r. power_int r am) (rr ao)"
  from s obtain row where row: "get_row (psi_log q) sp mu = Inr row"
    and 1: "bind_err (np_broadcast (/) row ?ys) (\<lambda>x.
     bind_err (set_row (psi_log_rl q) sp mu x) (\<lambda>rl.
       Inr (q\<lparr>psi_log_rl := rl\<rparr>))) = Inr q'"
    unfolding store_rescaled_def by (blast dest: bind_err_InrD)
  from 1 obtain x where x: "np_broadcast (/) row ?ys = Inr x"
    and 2: "bind_err (set_row (psi_log_rl q) sp mu x) (\<lambda>rl.
       Inr (q\<lparr>psi_log_rl := rl\<rparr>)) = Inr q'"
    by (blast dest: bind_err_InrD)
  from 2 obtain rl where rl: "set_row (psi_log_rl q) sp mu x = Inr rl" "q' = q\<lparr>psi_log_rl := rl\<rparr>"
    by (auto dest: bind_err_InrD)
  from get_row_InrD[OF row] have r: "row = psi_log q ! sp ! mu" by simp
  have lx: "length x = length (rr ao)"
    using x n by (auto simp: np_broadcast_def split: if_splits)
  have xi: "\<forall>ir<length row. x ! ir = row ! ir / power_int (rr ao ! ir) am"
  proof (cases "length row = length (rr ao)")
    case True
    then have "x = map2 (/) row ?ys" using x by (simp add: np_broadcast_def)
    then show ?thesis using True by simp
  next
    case False
    then have l1: "length row = 1" and "x = map ((/) (hd row)) ?ys"
      using x n by (auto simp: np_broadcast_def split: if_splits)
    moreover from l1 have "hd row = row ! 0" by (cases row) simp_all
    moreover have "0 < length (rr ao)" using n by (cases "rr ao") simp_all
    ultimately show ?thesis by simp
  qed
  from set_row_result[OF rl(1)] lx n obtain w where
    w: "rl = (psi_log_rl q)[sp := (psi_log_rl q ! sp)[mu := w]]" "sp < length (psi_log_rl q)"
       "mu < length (psi_log_rl q ! sp)" "w = x"
    by auto
  show ?thesis using w rl(2) xi r by blast
qed

lemma store_rescaled_rows:
  assumes s: "store_rescaled ao sp mu am q = Inr q'" and n: "2 \<le> length (rr ao)"
    and am: "am = sp_mu2j ao ! sp ! mu"
    and D: "\<And>s m. (s, m) \<in> D \<Longrightarrow> rescaled_row ao q s m"
    and sm: "(s, m) \<in> insert (sp, mu) D"
  shows "rescaled_row ao q' s m"
proof -
  from store_rescaled_InrD[OF s n] obtain w where
    w: "q' = q\<lparr>psi_log_rl := (psi_log_rl q)[sp := (psi_log_rl q ! sp)[mu := w]]\<rparr>"
       "sp < length (psi_log_rl q)" "mu < length (psi_log_rl q ! sp)"
       "\<forall>ir<length (psi_log q ! sp ! mu).
              w ! ir = psi_log q ! sp ! mu ! ir / power_int (rr ao ! ir) am"
    by blast
  show ?thesis
  proof (cases "(s, m) = (sp, mu)")
    case True
    then show ?thesis
      using w am by (simp add: rescaled_row_def)
  next
    case False
    then have "(s, m) \<in> D" using sm by auto
    from D[OF this] show ?thesis
      unfolding rescaled_row_def w(1) by (simp add: nth2_update_other[OF False])
  qed
qed

lemma store_rescaled_fields:
  assumes "store_rescaled ao sp mu am q = Inr q'"
  shows "\<exists>rl. q' = q\<lparr>psi_log_rl := rl\<rparr>"
proof -
  from assms obtain row where "get_row (psi_log q) sp mu = Inr row"
    and 1: "bind_err (np_broadcast (/) row (map (\<lambda>r. power_int r am) (rr ao))) (\<lambda>x.
     bind_err (set_row (psi_log_rl q) sp mu x) (\<lambda>rl.
       Inr (q\<lparr>psi_log_rl := rl\<rparr>))) = Inr q'"
    unfolding store_rescaled_def by (blast dest: bind_err_InrD)
  from 1 obtain x where 2: "bind_err (set_row (psi_log_rl q) sp mu x) (\<lambda>rl.
       Inr (q\<lparr>psi_log_rl := rl\<rparr>)) = Inr q'"
    by (blast dest: bind_err_InrD)
  from 2 show ?thesis by (auto dest: bind_err_InrD)
qed

lemma row_step_rows:
  assumes s: "row_step F ao sp (mu, ff, am) q = Inr q'" and n: "2 \<le> length (rr ao)"
    and am: "am = sp_mu2j ao ! sp ! mu"
    and D: "\<And>s m. (s, m) \<in> D \<Longrightarrow> rescaled_row ao q s m"
    and sm: "(s, m) \<in> insert (sp, mu) D"
  shows "rescaled_row ao q' s m"
proof -
  from s obtain v where
    1: "bind_err (set_row (psi_log q) sp mu v) (\<lambda>psi.
       store_rescaled ao sp mu am (q\<lparr>psi_log := psi\<rparr>)) = Inr q'"
    unfolding row_step_def prod.case by (blast dest: bind_err_InrD)
  from 1 obtain psi where psi: "set_row (psi_log q) sp mu v = Inr psi"
    "store_rescaled ao sp mu am (q\<lparr>psi_log := psi\<rparr>) = Inr q'"
    by (blast dest: bind_err_InrD)
  from set_row_result[OF psi(1)] obtain w where
    w: "psi = (psi_log q)[sp := (psi_log q ! sp)[mu := w]]" by blast
  have D': "rescaled_row ao (q\<lparr>psi_log := psi\<rparr>) s' m'" if "(s', m') \<in> D - {(sp, mu)}" for s' m'
  proof -
    from that have a: "(s', m') \<in> D" and b: "(s', m') \<noteq> (sp, mu)" by simp_all
    from D[OF a] show ?thesis
      unfolding rescaled_row_def w by (simp add: nth2_update_other[OF b])
  qed
  from sm have "(s, m) \<in> insert (sp, mu) (D - {(sp, mu)})" by auto
  with store_rescaled_rows[OF psi(2) n am D'] show ?thesis by blast
qed

lemma row_step_fields:
  assumes "row_step F ao sp x q = Inr q'"
  shows "\<exists>psi rl. q' = q\<lparr>psi_log := psi, psi_log_rl := rl\<rparr>"
proof -
  obtain mu ff am where x: "x = (mu, ff, am)" by (cases x)
  from assms obtain v where
    1: "bind_err (set_row (psi_log q) sp mu v) (\<lambda>psi.
       store_rescaled ao sp mu am (q\<lparr>psi_log := psi\<rparr>)) = Inr q'"
    unfolding row_step_def x prod.case by (blast dest: bind_err_InrD)
  from 1 obtain psi where psi: "store_rescaled ao sp mu am (q\<lparr>psi_log := psi\<rparr>) = Inr q'"
    by (blast dest: bind_err_InrD)
  from store_rescaled_fields[OF psi] show ?thesis by blast
qed

lemma species_step_rows:
  assumes s: "species_step F ao (sp, mu2ff) q = Inr q'" and n: "2 \<le> length (rr ao)"
    and l: "length mu2ff = length (sp_mu2j ao ! sp)"
    and D: "\<And>s m. (s, m) \<in> D \<Longrightarrow> rescaled_row ao q s m"
    and sm: "(s, m) \<in> D \<union> {sp} \<times> {..<length (sp_mu2j ao ! sp)}"
  shows "rescaled_row ao q' s m"
proof -
  from s obtain mu2j where j: "np_get (sp_mu2j ao) sp = Inr mu2j"
    and 1: "for_each (enumerate_list (zip mu2ff mu2j)) (row_step F ao sp) q = Inr q'"
    unfolding species_step_def prod.case by (blast dest: bind_err_InrD)
  from np_get_InrD[OF j] have mu2j: "mu2j = sp_mu2j ao ! sp" by simp
  let ?xs = "enumerate_list (zip mu2ff mu2j)"
  let ?I = "\<lambda>i p. \<forall>s m. (s, m) \<in> D \<union> {sp} \<times> {..<i} \<longrightarrow> rescaled_row ao p s m"
  have len: "length ?xs = length (sp_mu2j ao ! sp)" using l mu2j by simp
  have "?I (length ?xs) q'"
  proof (rule for_each_indexed[where I = ?I, OF _ _ 1])
    show "?I 0 q" using D by simp
  next
    fix i p p' assume i: "i < length ?xs" and I: "?I i p"
      and b: "row_step F ao sp (?xs ! i) p = Inr p'"
    have x: "?xs ! i = (i, mu2ff ! i, sp_mu2j ao ! sp ! i)"
      using i l mu2j by (simp add: enumerate_list_nth)
    have e: "insert (sp, i) (D \<union> {sp} \<times> {..<i}) = D \<union> {sp} \<times> {..<Suc i}"
      by (auto simp: less_Suc_eq)
    show "?I (Suc i) p'"
    proof (intro allI impI)
      fix s m assume "(s, m) \<in> D \<union> {sp} \<times> {..<Suc i}"
      then have sm': "(s, m) \<in> insert (sp, i) (D \<union> {sp} \<times> {..<i})" unfolding e .
      show "rescaled_row ao p' s m"
      proof (rule row_step_rows[where D = "D \<union> {sp} \<times> {..<i}", OF b[unfolded x] n refl _ sm'])
        fix s' m' assume a: "(s', m') \<in> D \<union> {sp} \<times> {..<i}"
        from I[rule_format, OF a] show "rescaled_row ao p s' m'" .
      qed
    qed
  qed
  then have "\<forall>s m. (s, m) \<in> D \<union> {sp} \<times> {..<length (sp_mu2j ao ! sp)} \<longrightarrow> rescaled_row ao q' s m"
    unfolding len .
  from this[rule_format, OF sm] show ?thesis .
qed

lemma species_loop_rows:
  assumes s: "for_each (enumerate_list (psi_log ao)) (species_step F ao) q = Inr q'"
    and wf: "wf_ao ao" and sp: "sp < nspecies ao" and mu: "mu < length (sp_mu2j ao ! sp)"
  shows "rescaled_row ao q' sp mu"
proof -
  have n: "2 \<le> length (rr ao)" using wf by (simp add: wf_ao_def)
  have len: "length (psi_log ao) = nspecies ao" using wf by (simp add: wf_ao_def)
  let ?xs = "enumerate_list (psi_log ao)"
  let ?D = "\<lambda>k. {(s, m). s < k \<and> m < length (sp_mu2j ao ! s)}"
  let ?I = "\<lambda>k p. \<forall>s m. (s, m) \<in> ?D k \<longrightarrow> rescaled_row ao p s m"
  have "?I (length ?xs) q'"
  proof (rule for_each_indexed[where I = ?I, OF _ _ s])
    show "?I 0 q" by simp
  next
    fix k p p' assume k: "k < length ?xs" and I: "?I k p"
      and b: "species_step F ao (?xs ! k) p = Inr p'"
    have x: "?xs ! k = (k, psi_log ao ! k)" using k by (simp add: enumerate_list_nth)
    have kk: "k < nspecies ao" using k len by simp
    have l: "length (psi_log ao ! k) = length (sp_mu2j ao ! k)"
    proof -
      have "map length (psi_log ao) = map length (sp_mu2j ao)" "k < length (sp_mu2j ao)"
        using wf kk by (simp_all add: wf_ao_def)
      then show ?thesis by (rule map_length_nth)
    qed
    have e: "?D k \<union> {k} \<times> {..<length (sp_mu2j ao ! k)} = ?D (Suc k)"
      by (auto simp: less_Suc_eq)
    show "?I (Suc k) p'"
    proof (intro allI impI)
      fix s m assume "(s, m) \<in> ?D (Suc k)"
      then have sm': "(s, m) \<in> ?D k \<union> {k} \<times> {..<length (sp_mu2j ao ! k)}" unfolding e .
      show "rescaled_row ao p' s m"
      proof (rule species_step_rows[where D = "?D k", OF b[unfolded x] n l _ sm'])
        fix s' m' assume a: "(s', m') \<in> ?D k"
        from I[rule_format, OF a] show "rescaled_row ao p s' m'" .
      qed
    qed
  qed
  then show ?thesis using sp mu len by simp
qed

lemma fill_sp_mu2rcut_fields:
  assumes "fill_sp_mu2rcut ao sp q = Inr q'"
  shows "\<exists>c. q' = q\<lparr>sp_mu2rcut := c\<rparr>"
proof -
  from assms obtain c :: "real list" where 1: "bind_err (np_last (rr ao)) (\<lambda>rmax.
       Inr (q\<lparr>sp_mu2rcut := (sp_mu2rcut q)[sp := replicate (length c) rmax]\<rparr>)) = Inr q'"
    unfolding fill_sp_mu2rcut_def by (blast dest: bind_err_InrD)
  from 1 show ?thesis by (auto dest: bind_err_InrD)
qed

lemma fill_rcut_psi:
  assumes "fill_rcut ao q = Inr q'"
  shows "psi_log q' = psi_log q \<and> psi_log_rl q' = psi_log_rl q"
proof -
  from assms obtain q1 where q1: "for_each (py_range (nspecies ao)) (fill_sp_mu2rcut ao) q = Inr q1"
    and 1: "bind_err (np_last (rr ao)) (\<lambda>rmax.
       Inr (q1\<lparr>sp2rcut := replicate (length (sp2rcut q1)) rmax\<rparr>)) = Inr q'"
    unfolding fill_rcut_def by (blast dest: bind_err_InrD)
  let ?P = "\<lambda>s. psi_log s = psi_log q \<and> psi_log_rl s = psi_log_rl q"
  have "?P q1"
  proof (rule for_each_preserves[where P = ?P, OF _ _ q1])
    show "?P q" by simp
  next
    fix x s s' assume "?P s" "fill_sp_mu2rcut ao x s = Inr s'"
    then show "?P s'" using fill_sp_mu2rcut_fields[of ao x s s'] by auto
  qed
  moreover from 1 obtain rmax where "q' = q1\<lparr>sp2rcut := replicate (length (sp2rcut q1)) rmax\<rparr>"
    by (auto dest: bind_err_InrD)
  ultimately show ?thesis by simp
qed

lemma ao_log_hartree_sbt_rescaled:
  assumes s: "ao_log_hartree_sbt sbt_c ao = Inr pot" and wf: "wf_ao ao"
    and sp: "sp < nspecies ao" and mu: "mu < length (sp_mu2j ao ! sp)"
  shows "rescaled_row ao pot sp mu" and "length (psi_log pot ! sp ! mu) = nr ao"
proof -
  from s obtain sbt where 1: "bind_err (for_each (enumerate_list (psi_log ao)) (sbt_species sbt ao) ao)
      (\<lambda>ao_pot. fill_rcut ao ao_pot) = Inr pot"
    unfolding ao_log_hartree_sbt_def Let_def by (blast dest: bind_err_InrD)
  from 1 obtain q where q: "for_each (enumerate_list (psi_log ao)) (sbt_species sbt ao) ao = Inr q"
    "fill_rcut ao q = Inr pot"
    by (blast dest: bind_err_InrD)
  have "rescaled_row ao q sp mu"
    by (rule species_loop_rows[where F = "sbt_row sbt ao", OF q(1)[unfolded sbt_species_step] wf sp mu])
  then show "rescaled_row ao pot sp mu"
    using fill_rcut_psi[OF q(2)] by (simp add: rescaled_row_def)
  have f: "same_frame pot ao" using s by (rule ao_log_hartree_sbt_frame)
  have sl: "sp < length (psi_log ao)" using wf sp by (simp add: wf_ao_def)
  from f have "map (map length) (psi_log pot) = map (map length) (psi_log ao)"
    by (simp add: same_frame_def)
  from map_map_length_nth[OF this sl]
  have "map length (psi_log pot ! sp) = map length (psi_log ao ! sp)" .
  moreover have "mu < length (psi_log ao ! sp)" using wf_ao_rowD(1)[OF wf sp mu] mu by simp
  ultimately have "length (psi_log pot ! sp ! mu) = length (psi_log ao ! sp ! mu)"
    by (rule map_length_nth)
  then show "length (psi_log pot ! sp ! mu) = nr ao" using wf_ao_rowD(3)[OF wf sp mu] by simp
qed

lemma row_step_cut:
  assumes "row_step F ao sp x q = Inr q'"
  shows "sp_mu2rcut q' = sp_mu2rcut q \<and> sp2rcut q' = sp2rcut q"
  using row_step_fields[OF assms] by auto

lemma species_step_cut:
  assumes "species_step F ao x q = Inr q'"
  shows "sp_mu2rcut q' = sp_mu2rcut q \<and> sp2rcut q' = sp2rcut q"
proof -
  obtain sp mu2ff where x: "x = (sp, mu2ff)" by (cases x)
  from assms obtain mu2j where
    1: "for_each (enumerate_list (zip mu2ff mu2j)) (row_step F ao sp) q = Inr q'"
    unfolding species_step_def x prod.case by (blast dest: bind_err_InrD)
  let ?P = "\<lambda>s. sp_mu2rcut s = sp_mu2rcut q \<and> sp2rcut s = sp2rcut q"
  show ?thesis
  proof (rule for_each_preserves[where P = ?P, OF _ _ 1])
    show "?P q" by simp
  next
    fix y s s' assume "?P s" "row_step F ao sp y s = Inr s'"
    then show "?P s'" using row_step_cut[of F ao sp y s s'] by simp
  qed
qed

lemma species_loop_cut:
  assumes "for_each xs (species_step F ao) q = Inr q'"
  shows "sp_mu2rcut q' = sp_mu2rcut q \<and> sp2rcut q' = sp2rcut q"
proof (rule for_each_preserves[where P = "\<lambda>s. sp_mu2rcut s = sp_mu2rcut q \<and> sp2rcut s = sp2rcut q",
      OF _ _ assms])
  show "sp_mu2rcut q = sp_mu2rcut q \<and> sp2rcut q = sp2rcut q" by simp
next
  fix y s s' assume "sp_mu2rcut s = sp_mu2rcut q \<and> sp2rcut s = sp2rcut q"
    "species_step F ao y s = Inr s'"
  then show "sp_mu2rcut s' = sp_mu2rcut q \<and> sp2rcut s' = sp2rcut q"
    using species_step_cut[of F ao y s s'] by simp
qed

lemma fill_rcut_cutoffs:
  assumes f: "fill_rcut ao q = Inr pot" and wf: "wf_ao ao"
    and s: "map length (sp_mu2rcut q) = map length (sp_mu2rcut ao)"
           "length (sp2rcut q) = length (sp2rcut ao)"
  shows "cutoffs_reset ao pot"
proof -
  have n: "rr ao \<noteq> []" using wf by (auto simp: wf_ao_def)
  have "length (sp_mu2rcut q) = length (sp_mu2rcut ao)" using s(1) by (rule map_eq_imp_length_eq)
  then have "nspecies ao = length (sp_mu2rcut q)" using wf by (simp add: wf_ao_def)
  from fill_rcut_Inr[OF n this] f have "pot = rcut_reset ao q" by simp
  then show ?thesis using cutoffs_reset_rcut_reset[OF wf s] by simp
qed

lemma ao_log_hartree_sbt_cutoffs:
  assumes s: "ao_log_hartree_sbt sbt_c ao = Inr pot" and wf: "wf_ao ao"
  shows "cutoffs_reset ao pot"
proof -
  from s obtain sbt where 1: "bind_err (for_each (enumerate_list (psi_log ao)) (sbt_species sbt ao) ao)
      (\<lambda>ao_pot. fill_rcut ao ao_pot) = Inr pot"
    unfolding ao_log_hartree_sbt_def Let_def by (blast dest: bind_err_InrD)
  from 1 obtain q where q: "for_each (enumerate_list (psi_log ao)) (sbt_species sbt ao) ao = Inr q"
    "fill_rcut ao q = Inr pot"
    by (blast dest: bind_err_InrD)
  from species_loop_cut[where F = "sbt_row sbt ao", OF q(1)[unfolded sbt_species_step]]
  have "map length (sp_mu2rcut q) = map length (sp_mu2rcut ao)" "length (sp2rcut q) = length (sp2rcut ao)"
    by simp_all
  with q(2) wf show ?thesis by (rule fill_rcut_cutoffs)
qed

lemma libnao_species_InrD:
  assumes "libnao_species f ao sp q = Inr q'"
  shows "\<exists>out. for_each (enumerate_list (sp_mu2j ao ! sp)) (\<lambda>(mu, am). store_rescaled ao sp mu am)
                  (q\<lparr>psi_log := (psi_log q)[sp := out]\<rparr>) = Inr q'"
proof -
  from assms obtain mu2j where j: "np_get (sp_mu2j ao) sp = Inr mu2j"
    and 1: "bind_err (np_get (psi_log ao) sp) (\<lambda>ff_rad.
     bind_err (np_get (psi_log q) sp) (\<lambda>ff_pot.
     bind_err (np_get (sp2nmult ao) sp) (\<lambda>nmult.
     bind_err (f (rr ao) nmult ff_rad (nr ao) mu2j ff_pot) (\<lambda>ff_pot.
     let ao_pot = q\<lparr>psi_log := (psi_log q)[sp := ff_pot]\<rparr> in
     bind_err (np_get (sp_mu2j ao) sp) (\<lambda>mu2j.
       for_each (enumerate_list mu2j) (\<lambda>(mu, am). store_rescaled ao sp mu am) ao_pot))))) = Inr q'"
    unfolding libnao_species_def by (blast dest: bind_err_InrD)
  from 1 obtain ff_rad where 2: "bind_err (np_get (psi_log q) sp) (\<lambda>ff_pot.
     bind_err (np_get (sp2nmult ao) sp) (\<lambda>nmult.
     bind_err (f (rr ao) nmult ff_rad (nr ao) mu2j ff_pot) (\<lambda>ff_pot.
     let ao_pot = q\<lparr>psi_log := (psi_log q)[sp := ff_pot]\<rparr> in
     bind_err (np_get (sp_mu2j ao) sp) (\<lambda>mu2j.
       for_each (enumerate_list mu2j) (\<lambda>(mu, am). store_rescaled ao sp mu am) ao_pot)))) = Inr q'"
    by (blast dest: bind_err_InrD)
  from 2 obtain ff_pot where 3: "bind_err (np_get (sp2nmult ao) sp) (\<lambda>nmult.
     bind_err (f (rr ao) nmult ff_rad (nr ao) mu2j ff_pot) (\<lambda>ff_pot.
     let ao_pot = q\<lparr>psi_log := (psi_log q)[sp := ff_pot]\<rparr> in
     bind_err (np_get (sp_mu2j ao) sp) (\<lambda>mu2j.
       for_each (enumerate_list mu2j) (\<lambda>(mu, am). store_rescaled ao sp mu am) ao_pot))) = Inr q'"
    by (blast dest: bind_err_InrD)
  from 3 obtain nmult where 4: "bind_err (f (rr ao) nmult ff_rad (nr ao) mu2j ff_pot) (\<lambda>ff_pot.
     let ao_pot = q\<lparr>psi_log := (psi_log q)[sp := ff_pot]\<rparr> in
     bind_err (np_get (sp_mu2j ao) sp) (\<lambda>mu2j.
       for_each (enumerate_list mu2j) (\<lambda>(mu, am). store_rescaled ao sp mu am) ao_pot)) = Inr q'"
    by (blast dest: bind_err_InrD)
  from 4 obtain out where 5: "bind_err (np_get (sp_mu2j ao) sp) (\<lambda>mu2j.
       for_each (enumerate_list mu2j) (\<lambda>(mu, am). store_rescaled ao sp mu am)
         (q\<lparr>psi_log := (psi_log q)[sp := out]\<rparr>)) = Inr q'"
    unfolding Let_def by (blast dest: bind_err_InrD)
  from np_get_InrD[OF j] have "np_get (sp_mu2j ao) sp = Inr (sp_mu2j ao ! sp)" by simp
  with 5 show ?thesis by auto
qed

lemma libnao_species_cut:
  assumes "libnao_species f ao sp q = Inr q'"
  shows "sp_mu2rcut q' = sp_mu2rcut q \<and> sp2rcut q' = sp2rcut q"
proof -
  from libnao_species_InrD[OF assms] obtain out where
    1: "for_each (enumerate_list (sp_mu2j ao ! sp)) (\<lambda>(mu, am). store_rescaled ao sp mu am)
                  (q\<lparr>psi_log := (psi_log q)[sp := out]\<rparr>) = Inr q'" by blast
  let ?P = "\<lambda>s. sp_mu2rcut s = sp_mu2rcut q \<and> sp2rcut s = sp2rcut q"
  show ?thesis
  proof (rule for_each_preserves[where P = ?P, OF _ _ 1])
    show "?P (q\<lparr>psi_log := (psi_log q)[sp := out]\<rparr>)" by simp
  next
    fix y :: "nat \<times> int" and s s'
    assume P: "?P s" and b: "(case y of (mu, am) \<Rightarrow> store_rescaled ao sp mu am) s = Inr s'"
    obtain mu am where y: "y = (mu, am)" by (cases y)
    from b have "store_rescaled ao sp mu am s = Inr s'" unfolding y by simp
    from store_rescaled_fields[OF this] P show "?P s'" by auto
  qed
qed

lemma libnao_species_rows:
  assumes s: "libnao_species f ao sp q = Inr q'" and n: "2 \<le> length (rr ao)"
    and D: "\<And>s m. (s, m) \<in> D \<Longrightarrow> s \<noteq> sp \<and> rescaled_row ao q s m"
    and sm: "(s, m) \<in> D \<union> {sp} \<times> {..<length (sp_mu2j ao ! sp)}"
  shows "rescaled_row ao q' s m"
proof -
  from libnao_species_InrD[OF s] obtain out where
    1: "for_each (enumerate_list (sp_mu2j ao ! sp)) (\<lambda>(mu, am). store_rescaled ao sp mu am)
                  (q\<lparr>psi_log := (psi_log q)[sp := out]\<rparr>) = Inr q'" by blast
  let ?q1 = "q\<lparr>psi_log := (psi_log q)[sp := out]\<rparr>"
  let ?xs = "enumerate_list (sp_mu2j ao ! sp)"
  let ?I = "\<lambda>i p. \<forall>s m. (s, m) \<in> D \<union> {sp} \<times> {..<i} \<longrightarrow> rescaled_row ao p s m"
  have "?I (length ?xs) q'"
  proof (rule for_each_indexed[where I = ?I, OF _ _ 1])
    show "?I 0 ?q1"
    proof (intro allI impI)
      fix s m assume "(s, m) \<in> D \<union> {sp} \<times> {..<0}"
      then have "(s, m) \<in> D" by simp
      from D[OF this] show "rescaled_row ao ?q1 s m" by (simp add: rescaled_row_def)
    qed
  next
    fix i p p' assume i: "i < length ?xs" and I: "?I i p"
      and b: "(case ?xs ! i of (mu, am) \<Rightarrow> store_rescaled ao sp mu am) p = Inr p'"
    have x: "?xs ! i = (i, sp_mu2j ao ! sp ! i)" using i by (simp add: enumerate_list_nth)
    from b have b': "store_rescaled ao sp i (sp_mu2j ao ! sp ! i) p = Inr p'" unfolding x by simp
    have e: "insert (sp, i) (D \<union> {sp} \<times> {..<i}) = D \<union> {sp} \<times> {..<Suc i}"
      by (auto simp: less_Suc_eq)
    show "?I (Suc i) p'"
    proof (intro allI impI)
      fix s m assume "(s, m) \<in> D \<union> {sp} \<times> {..<Suc i}"
      then have sm': "(s, m) \<in> insert (sp, i) (D \<union> {sp} \<times> {..<i})" unfolding e .
      show "rescaled_row ao p' s m"
      proof (rule store_rescaled_rows[where D = "D \<union> {sp} \<times> {..<i}", OF b' n refl _ sm'])
        fix s' m' assume a: "(s', m') \<in> D \<union> {sp} \<times> {..<i}"
        from I[rule_format, OF a] show "rescaled_row ao p s' m'" .
      qed
    qed
  qed
  then have "\<forall>s m. (s, m) \<in> D \<union> {sp} \<times> {..<length (sp_mu2j ao ! sp)} \<longrightarrow> rescaled_row ao q' s m"
    by simp
  from this[rule_format, OF sm] show ?thesis .
qed

lemma libnao_loop_rows:
  assumes s: "for_each (py_range (nspecies ao)) (libnao_species f ao) p = Inr q"
    and n: "2 \<le> length (rr ao)" and sp: "sp < nspecies ao" and mu: "mu < length (sp_mu2j ao ! sp)"
  shows "rescaled_row ao q sp mu"
proof -
  let ?xs = "py_range (nspecies ao)"
  let ?D = "\<lambda>k. {(s, m). s < k \<and> m < length (sp_mu2j ao ! s)}"
  let ?I = "\<lambda>k p. \<forall>s m. (s, m) \<in> ?D k \<longrightarrow> rescaled_row ao p s m"
  have len: "length ?xs = nspecies ao" by (simp add: py_range_def)
  have "?I (length ?xs) q"
  proof (rule for_each_indexed[where I = ?I, OF _ _ s])
    show "?I 0 p" by simp
  next
    fix k r r' assume k: "k < length ?xs" and I: "?I k r"
      and b: "libnao_species f ao (?xs ! k) r = Inr r'"
    have x: "?xs ! k = k" using k by (simp add: py_range_def)
    have e: "?D k \<union> {k} \<times> {..<length (sp_mu2j ao ! k)} = ?D (Suc k)"
      by (auto simp: less_Suc_eq)
    show "?I (Suc k) r'"
    proof (intro allI impI)
      fix s m assume "(s, m) \<in> ?D (Suc k)"
      then have sm': "(s, m) \<in> ?D k \<union> {k} \<times> {..<length (sp_mu2j ao ! k)}" unfolding e .
      show "rescaled_row ao r' s m"
      proof (rule libnao_species_rows[where D = "?D k", OF b[unfolded x] n _ sm'])
        fix s' m' assume a: "(s', m') \<in> ?D k"
        from I[rule_format, OF a] a show "s' \<noteq> k \<and> rescaled_row ao r s' m'" by simp
      qed
    qed
  qed
  then show ?thesis using sp mu len by simp
qed

lemma libnao_loop_cut:
  assumes "for_each xs (libnao_species f ao) p = Inr q"
  shows "sp_mu2rcut q = sp_mu2rcut p \<and> sp2rcut q = sp2rcut p"
proof (rule for_each_preserves[where P = "\<lambda>s. sp_mu2rcut s = sp_mu2rcut p \<and> sp2rcut s = sp2rcut p",
      OF _ _ assms])
  show "sp_mu2rcut p = sp_mu2rcut p \<and> sp2rcut p = sp2rcut p" by simp
next
  fix y s s' assume "sp_mu2rcut s = sp_mu2rcut p \<and> sp2rcut s = sp2rcut p"
    "libnao_species f ao y s = Inr s'"
  then show "sp_mu2rcut s' = sp_mu2rcut p \<and> sp2rcut s' = sp2rcut p"
    using libnao_species_cut[of f ao y s s'] by simp
qed

lemma ao_log_hartree_lap_libnao_InrD:
  assumes "ao_log_hartree_lap_libnao ao_log_new f ao = Inr pot"
  shows "\<exists>p q. ao_log_new ao = Inr p \<and>
           for_each (py_range (nspecies ao)) (libnao_species f ao) p = Inr q \<and>
           fill_rcut ao q = Inr pot"
proof -
  from assms obtain p where p: "ao_log_new ao = Inr p"
    and 1: "bind_err (for_each (py_range (nspecies ao)) (libnao_species f ao) p) (\<lambda>ao_pot.
       fill_rcut ao ao_pot) = Inr pot"
    unfolding ao_log_hartree_lap_libnao_def by (blast dest: bind_err_InrD)
  from 1 obtain q where "for_each (py_range (nspecies ao)) (libnao_species f ao) p = Inr q"
    "fill_rcut ao q = Inr pot"
    by (blast dest: bind_err_InrD)
  with p show ?thesis by blast
qed

lemma ao_log_hartree_lap_libnao_rescaled:
  assumes s: "ao_log_hartree_lap_libnao ao_log_new f ao = Inr pot" and wf: "wf_ao ao"
    and sp: "sp < nspecies ao" and mu: "mu < length (sp_mu2j ao ! sp)"
  shows "rescaled_row ao pot sp mu"
proof -
  from ao_log_hartree_lap_libnao_InrD[OF s] obtain p q where
    q: "for_each (py_range (nspecies ao)) (libnao_species f ao) p = Inr q" "fill_rcut ao q = Inr pot"
    by blast
  have n: "2 \<le> length (rr ao)" using wf by (simp add: wf_ao_def)
  have "rescaled_row ao q sp mu" using q(1) n sp mu by (rule libnao_loop_rows)
  then show ?thesis using fill_rcut_psi[OF q(2)] by (simp add: rescaled_row_def)
qed

lemma ao_log_hartree_lap_libnao_cutoffs:
  assumes s: "ao_log_hartree_lap_libnao ao_log_new f ao = Inr pot" and wf: "wf_ao ao"
    and new: "ao_log_new ao = Inr p" and sh: "same_shape p ao"
  shows "cutoffs_reset ao pot"
proof -
  from ao_log_hartree_lap_libnao_InrD[OF s] new obtain q where
    q: "for_each (py_range (nspecies ao)) (libnao_species f ao) p = Inr q" "fill_rcut ao q = Inr pot"
    by auto
  from libnao_loop_cut[OF q(1)] sh
  have "map length (sp_mu2rcut q) = map length (sp_mu2rcut ao)" "length (sp2rcut q) = length (sp2rcut ao)"
    by (simp_all add: same_shape_def)
  with q(2) wf show ?thesis by (rule fill_rcut_cutoffs)
qed

subsection \<open>The library-backed solver on the store\<close>

lemma safeI:
  assumes "\<And>h. take (length h0) h = h0 \<Longrightarrow> P (length h) \<Longrightarrow>
             take (length h0) (snd (m h)) = h0 \<and>
             (\<forall>x. fst (m h) = Inr x \<longrightarrow> Q x (length (snd (m h))))"
  shows "safe h0 P m Q"
  unfolding safe_def
proof (intro allI impI)
  fix h assume a: "take (length h0) h = h0 \<and> P (length h)"
  obtain r h' where mh: "m h = (r, h')" by (cases "m h")
  from assms[of h] a mh show "case m h of (r, h') \<Rightarrow>
           take (length h0) h' = h0 \<and> (case r of Inl e \<Rightarrow> True | Inr x \<Rightarrow> Q x (length h'))"
    by (cases r) simp_all
qed

lemma safeD:
  assumes "safe h0 P m Q" "take (length h0) h = h0" "P (length h)" "m h = (r, h')"
  shows "take (length h0) h' = h0" and "\<And>x. r = Inr x \<Longrightarrow> Q x (length h')"
  using assms by (auto simp: safe_def)

lemma safe_bind:
  assumes m: "safe h0 P m R" and f: "\<And>x. safe h0 (R x) (f x) Q"
  shows "safe h0 P (bind_st m f) Q"
proof (rule safeI)
  fix h assume a: "take (length h0) h = h0" "P (length h)"
  obtain r h1 where mh: "m h = (r, h1)" by (cases "m h")
  note 1 = safeD[OF m a mh]
  show "take (length h0) (snd (bind_st m f h)) = h0 \<and>
        (\<forall>x. fst (bind_st m f h) = Inr x \<longrightarrow> Q x (length (snd (bind_st m f h))))"
  proof (cases r)
    case (Inl e)
    then show ?thesis using mh 1(1) by (simp add: bind_st_def)
  next
    case (Inr x)
    obtain r2 h2 where fh: "f x h1 = (r2, h2)" by (cases "f x h1")
    note 2 = safeD[OF f[of x] 1(1) 1(2)[OF Inr] fh]
    have "bind_st m f h = (r2, h2)" using mh Inr fh by (simp add: bind_st_def)
    then show ?thesis using 2 by simp
  qed
qed

lemma safe_pre:
  assumes "\<And>n. P n \<Longrightarrow> P' n" and "safe h0 P' m Q"
  shows "safe h0 P m Q"
  unfolding safe_def
proof (intro allI impI)
  fix h assume "take (length h0) h = h0 \<and> P (length h)"
  then have "take (length h0) h = h0 \<and> P' (length h)" using assms(1) by simp
  from assms(2)[unfolded safe_def, rule_format, OF this]
  show "case m h of (r, h') \<Rightarrow>
           take (length h0) h' = h0 \<and> (case r of Inl e \<Rightarrow> True | Inr x \<Rightarrow> Q x (length h'))" .
qed

lemma safe_extract:
  assumes "\<And>n. P n \<Longrightarrow> V" and "V \<Longrightarrow> safe h0 P m Q"
  shows "safe h0 P m Q"
  unfolding safe_def
proof (intro allI impI)
  fix h assume a: "take (length h0) h = h0 \<and> P (length h)"
  then have "P (length h)" by simp
  then have V by (rule assms(1))
  from assms(2)[OF this, unfolded safe_def, rule_format, OF a]
  show "case m h of (r, h') \<Rightarrow>
           take (length h0) h' = h0 \<and> (case r of Inl e \<Rightarrow> True | Inr x \<Rightarrow> Q x (length h'))" .
qed

lemma safe_return:
  assumes "\<And>n. P n \<Longrightarrow> Q x n"
  shows "safe h0 P (lift_st (Inr x)) Q"
  using assms by (simp add: safe_def lift_st_def)

lemma safe_bind_lift:
  assumes "\<And>x. r = Inr x \<Longrightarrow> safe h0 P (K x) Q"
  shows "safe h0 P (bind_st (lift_st r) K) Q"
proof (cases r)
  case (Inl e)
  then show ?thesis by (simp add: safe_def bind_st_def lift_st_def)
next
  case (Inr x)
  have "bind_st (lift_st r) K = K x" unfolding Inr by (rule ext) simp
  with assms[OF Inr] show ?thesis by simp
qed

lemma take_length_le:
  assumes "take n h = h0" "length h0 = n"
  shows "n \<le> length h"
proof -
  have "length (take n h) = n" using assms by simp
  then show ?thesis by simp
qed

lemma safe_frame:
  assumes "frame_st (length h0) m"
  shows "safe h0 P m (\<lambda>x n. P n)"
proof (rule safeI)
  fix h assume a: "take (length h0) h = h0" "P (length h)"
  have l: "length h0 \<le> length h" using a(1) by (rule take_length_le) simp
  from frame_stD[OF assms l a(1)] a(2)
  show "take (length h0) (snd (m h)) = h0 \<and>
        (\<forall>x. fst (m h) = Inr x \<longrightarrow> P (length (snd (m h))))"
    by simp
qed

lemma safe_bind_frame:
  assumes "frame_st (length h0) m" and "\<And>x. safe h0 P (K x) Q"
  shows "safe h0 P (bind_st m K) Q"
  by (rule safe_bind[where R = "\<lambda>x. P", OF safe_frame[OF assms(1)] assms(2)])

lemma safe_require:
  assumes mono: "\<And>n. P n \<Longrightarrow> P (Suc n)"
  shows "safe h0 P (np_require meets a)
           (\<lambda>a' n. P n \<and> (length h0 \<le> a \<longrightarrow> length h0 \<le> a') \<and> (a' = a \<or> a' < n))"
proof (rule safeI)
  fix h assume a: "take (length h0) h = h0" "P (length h)"
  have l: "length h0 \<le> length h" using a(1) by (rule take_length_le) simp
  show "take (length h0) (snd (np_require meets a h)) = h0 \<and>
        (\<forall>x. fst (np_require meets a h) = Inr x \<longrightarrow>
           P (length (snd (np_require meets a h))) \<and> (length h0 \<le> a \<longrightarrow> length h0 \<le> x) \<and>
           (x = a \<or> x < length (snd (np_require meets a h))))"
    using a l mono[OF a(2)] by (auto simp: np_require_def)
qed

lemma safe_bind_require:
  assumes mono: "\<And>n. P n \<Longrightarrow> P (Suc n)"
    and K: "\<And>a'. length h0 \<le> a \<longrightarrow> length h0 \<le> a' \<Longrightarrow>
              safe h0 (\<lambda>n. P n \<and> (a' = a \<or> a' < n)) (K a') Q"
  shows "safe h0 P (bind_st (np_require meets a) K) Q"
proof (rule safe_bind[OF safe_require[where P = P, OF mono]])
  fix a'
  show "safe h0 (\<lambda>n. P n \<and> (length h0 \<le> a \<longrightarrow> length h0 \<le> a') \<and> (a' = a \<or> a' < n)) (K a') Q"
  proof (rule safe_extract[where V = "length h0 \<le> a \<longrightarrow> length h0 \<le> a'"])
    fix n assume "P n \<and> (length h0 \<le> a \<longrightarrow> length h0 \<le> a') \<and> (a' = a \<or> a' < n)"
    then show "length h0 \<le> a \<longrightarrow> length h0 \<le> a'" by simp
  next
    assume v: "length h0 \<le> a \<longrightarrow> length h0 \<le> a'"
    show "safe h0 (\<lambda>n. P n \<and> (length h0 \<le> a \<longrightarrow> length h0 \<le> a') \<and> (a' = a \<or> a' < n)) (K a') Q"
      by (rule safe_pre[OF _ K[OF v]]) simp
  qed
qed

lemma safe_for_each_acc:
  assumes "\<And>x p. x \<in> set xs \<Longrightarrow> safe h0 (I p) (body x p) I"
  shows "safe h0 (I p0) (for_each_acc xs body p0) I"
  using assms
proof (induction xs arbitrary: p0)
  case Nil
  show ?case by (simp add: safe_return)
next
  case (Cons x xs)
  have 1: "safe h0 (I p0) (body x p0) I" by (rule Cons.prems) simp
  have 2: "safe h0 (I p) (for_each_acc xs body p) I" for p
    by (rule Cons.IH) (rule Cons.prems, simp)
  show ?case
    unfolding for_each_acc.simps by (rule safe_bind[where R = I, OF 1 2])
qed

lemma fresh_in_mono: "fresh_in ao L p n \<Longrightarrow> fresh_in ao L p (Suc n)"
  by (auto simp: fresh_in_def list_all_iff)

lemma fresh_in_fresh: "fresh_in ao L p n \<Longrightarrow> fresh L p"
  by (auto simp: fresh_in_def fresh_def list_all_iff)

lemma fresh_in_psi_log:
  "fresh_in ao L p n \<Longrightarrow> a \<in> set (o_psi_log p) \<Longrightarrow> L \<le> a \<and> a < n"
  by (auto simp: fresh_in_def refs_def list_all_iff)

lemma refs_rebind:
  "set (refs (p\<lparr>o_psi_log := (o_psi_log p)[sp := a]\<rparr>)) \<subseteq> insert a (set (refs p))"
proof -
  have "set ((o_psi_log p)[sp := a]) \<subseteq> insert a (set (o_psi_log p))"
    by (rule set_update_subset_insert)
  then show ?thesis by (auto simp: refs_def)
qed

lemma fresh_in_rebind:
  assumes "fresh_in ao L p n" "L \<le> a" "a < n"
  shows "fresh_in ao L (p\<lparr>o_psi_log := (o_psi_log p)[sp := a]\<rparr>) n"
proof -
  have "\<And>b. b \<in> set (refs (p\<lparr>o_psi_log := (o_psi_log p)[sp := a]\<rparr>)) \<Longrightarrow> L \<le> b \<and> b < n"
    using refs_rebind[of p sp a] assms by (auto simp: fresh_in_def list_all_iff)
  then show ?thesis using assms(1) by (simp add: fresh_in_def list_all_iff)
qed

lemma fresh_rebind:
  assumes "fresh L p" "L \<le> a"
  shows "fresh L (p\<lparr>o_psi_log := (o_psi_log p)[sp := a]\<rparr>)"
  using refs_rebind[of p sp a] assms by (auto simp: fresh_def list_all_iff)

lemma frame_libnao_call:
  assumes "L \<le> a_pot"
  shows "frame_st L (libnao_call_st f ao a_rr a_ff a_j a_pot sp)"
  unfolding libnao_call_st_def
  by (intro frame_bind' frame_read frame_lift frame_update assms)

lemma frame_libnao_rescale:
  assumes "fresh L ao_pot"
  shows "frame_st L (libnao_rescale_st ao ao_pot sp)"
  unfolding libnao_rescale_st_def split_def
  by (intro frame_bind' frame_read frame_lift frame_for_each frame_store_rescaled[OF assms])

lemma safe_bind_require_fresh:
  assumes K: "\<And>a'. length h0 \<le> a \<longrightarrow> length h0 \<le> a' \<Longrightarrow>
              safe h0 (\<lambda>n. fresh_in ao (length h0) p n \<and> (a' = a \<or> a' < n)) (K a') Q"
  shows "safe h0 (fresh_in ao (length h0) p) (bind_st (np_require meets a) K) Q"
proof (rule safe_bind_require[where P = "fresh_in ao (length h0) p"])
  fix n assume "fresh_in ao (length h0) p n"
  then show "fresh_in ao (length h0) p (Suc n)" by (rule fresh_in_mono)
next
  fix a' assume "length h0 \<le> a \<longrightarrow> length h0 \<le> a'"
  then show "safe h0 (\<lambda>n. fresh_in ao (length h0) p n \<and> (a' = a \<or> a' < n)) (K a') Q"
    by (rule K)
qed

lemma safe_libnao_species:
  "safe h0 (fresh_in ao (length h0) p) (libnao_species_st meets f ao a_rr sp p)
     (fresh_in ao (length h0))"
proof (rule safe_extract[where V = "fresh (length h0) p"])
  fix n assume "fresh_in ao (length h0) p n"
  then show "fresh (length h0) p" by (rule fresh_in_fresh)
next
  assume fp: "fresh (length h0) p"
  let ?G = "fresh_in ao (length h0)"
  have drop: "safe h0 (\<lambda>n. ?G p n \<and> X n) m ?G" if "safe h0 (?G p) m ?G"
    for X and m :: "ao_obj st"
    by (rule safe_pre[OF _ that]) simp
  have tail: "safe h0 (\<lambda>n. ?G p n \<and> a_pot < n)
        (bind_st (libnao_call_st f ao a_rr a_ff a_j a_pot sp) (\<lambda>_.
           let ao_pot = p\<lparr>o_psi_log := (o_psi_log p)[sp := a_pot]\<rparr> in
           bind_st (libnao_rescale_st ao ao_pot sp) (\<lambda>_. lift_st (Inr ao_pot)))) ?G"
    if ap: "length h0 \<le> a_pot" for a_j a_ff a_pot
    unfolding Let_def
  proof (rule safe_bind_frame[OF frame_libnao_call[OF ap]],
         rule safe_bind_frame[OF frame_libnao_rescale[OF fresh_rebind[OF fp ap]]],
         rule safe_return)
    fix n assume "?G p n \<and> a_pot < n"
    then show "?G (p\<lparr>o_psi_log := (o_psi_log p)[sp := a_pot]\<rparr>) n"
      using ap by (simp add: fresh_in_rebind)
  qed
  show "safe h0 (?G p) (libnao_species_st meets f ao a_rr sp p) ?G"
    unfolding libnao_species_st_def
  proof (rule safe_bind_lift, rule safe_bind_require_fresh, rule drop,
         rule safe_bind_lift, rule safe_bind_require_fresh, rule drop,
         rule safe_bind_lift, rule safe_bind_require_fresh)
    fix a_j a_ff a0 a_pot
    assume a0: "np_get (o_psi_log p) sp = Inr a0"
      and ap: "length h0 \<le> a0 \<longrightarrow> length h0 \<le> a_pot"
    from np_get_InrD[OF a0] have mem: "a0 \<in> set (o_psi_log p)" by simp
    then have "length h0 \<le> a0" using fresh_D(2)[OF fp] by simp
    with ap have ap': "length h0 \<le> a_pot" by simp
    show "safe h0 (\<lambda>n. ?G p n \<and> (a_pot = a0 \<or> a_pot < n))
        (bind_st (libnao_call_st f ao a_rr a_ff a_j a_pot sp) (\<lambda>_.
           let ao_pot = p\<lparr>o_psi_log := (o_psi_log p)[sp := a_pot]\<rparr> in
           bind_st (libnao_rescale_st ao ao_pot sp) (\<lambda>_. lift_st (Inr ao_pot)))) ?G"
    proof (rule safe_pre[OF _ tail[OF ap']])
      fix n assume "?G p n \<and> (a_pot = a0 \<or> a_pot < n)"
      then show "?G p n \<and> a_pot < n" using fresh_in_psi_log[OF _ mem] by auto
    qed
  qed
qed

lemma safe_libnao_body:
  "safe h0 (fresh_in ao (length h0) p0)
     (bind_st (np_require meets (o_rr ao)) (\<lambda>a_rr.
      bind_st (for_each_acc (py_range (o_nspecies ao)) (libnao_species_st meets f ao a_rr) p0) (\<lambda>ao_pot.
      bind_st (fill_rcut_st ao ao_pot) (\<lambda>_. lift_st (Inr ao_pot)))))
     (fresh_in ao (length h0))"
proof (rule safe_bind_require_fresh, rule safe_pre[where P' = "fresh_in ao (length h0) p0"])
  fix a_rr
  let ?G = "fresh_in ao (length h0)"
  show "safe h0 (?G p0)
     (bind_st (for_each_acc (py_range (o_nspecies ao)) (libnao_species_st meets f ao a_rr) p0) (\<lambda>ao_pot.
      bind_st (fill_rcut_st ao ao_pot) (\<lambda>_. lift_st (Inr ao_pot)))) ?G"
  proof (rule safe_bind[where R = ?G])
    show "safe h0 (?G p0)
       (for_each_acc (py_range (o_nspecies ao)) (libnao_species_st meets f ao a_rr) p0) ?G"
      by (rule safe_for_each_acc) (rule safe_libnao_species)
  next
    fix p
    show "safe h0 (?G p) (bind_st (fill_rcut_st ao p) (\<lambda>_. lift_st (Inr p))) ?G"
    proof (rule safe_extract[where V = "fresh (length h0) p"])
      fix n assume "?G p n"
      then show "fresh (length h0) p" by (rule fresh_in_fresh)
    next
      assume "fresh (length h0) p"
      then show "safe h0 (?G p) (bind_st (fill_rcut_st ao p) (\<lambda>_. lift_st (Inr p))) ?G"
        by (intro safe_bind_frame frame_fill_rcut safe_return)
    qed
  qed
qed simp

lemma libnao_st_fresh:
  assumes valid: "list_all (\<lambda>a. a < length h) (refs ao)"
    and new: "fresh_result ao h (ao_log_new ao h)"
  shows "fresh_result ao h (ao_log_hartree_lap_libnao_st ao_log_new meets f ao h)"
proof -
  obtain r h1 where n: "ao_log_new ao h = (r, h1)" by (cases "ao_log_new ao h")
  from new n have t: "take (length h) h1 = h" by (simp add: fresh_result_def)
  show ?thesis
  proof (cases r)
    case (Inl e)
    then have "ao_log_hartree_lap_libnao_st ao_log_new meets f ao h = (Inl e, h1)"
      using n by (simp add: ao_log_hartree_lap_libnao_st_def bind_st_def)
    then show ?thesis using t by (simp add: fresh_result_def)
  next
    case (Inr p0)
    let ?body = "bind_st (np_require meets (o_rr ao)) (\<lambda>a_rr.
      bind_st (for_each_acc (py_range (o_nspecies ao)) (libnao_species_st meets f ao a_rr) p0) (\<lambda>ao_pot.
      bind_st (fill_rcut_st ao ao_pot) (\<lambda>_. lift_st (Inr ao_pot))))"
    have g: "fresh_in ao (length h) p0 (length h1)"
      using new n Inr by (simp add: fresh_result_def fresh_in_def)
    obtain r' h' where b: "?body h1 = (r', h')" by (cases "?body h1")
    note s = safeD[OF safe_libnao_body[of h ao p0 meets f] t g b]
    have e: "ao_log_hartree_lap_libnao_st ao_log_new meets f ao h = (r', h')"
      using n Inr b by (simp add: ao_log_hartree_lap_libnao_st_def bind_st_def)
    show ?thesis
    proof (cases r')
      case (Inl e')
      then show ?thesis using e s(1) by (simp add: fresh_result_def)
    next
      case (Inr pot)
      from s(2)[OF Inr] have f: "fresh_in ao (length h) pot (length h')" .
      then have "set (refs pot) \<inter> set (refs ao) = {}"
        using valid by (fastforce simp: fresh_in_def list_all_iff)
      then show ?thesis using e s(1) f Inr by (simp add: fresh_result_def fresh_in_def)
    qed
  qed
qed

lemma libnao_example:
  "ao_log_hartree_lap_libnao_st deepcopy (\<lambda>a. a \<noteq> 13) example_routine obj_example store_example =
    (Inr \<lparr>o_nr = 2, o_nspecies = 1, o_jmx = 0, o_rr = 8, o_pp = 9, o_sp2nmult = 10, o_sp2rcut = 11,
      o_sp_mu2j = [12], o_psi_log = [16], o_psi_log_rl = [14], o_sp_mu2rcut = [15]\<rparr>,
     store_example @
     [Float1 [1, 2], Float1 [1, 2], Int1 [1], Float1 [2], Int1 [0],
      Float2 [[1, 1]], Float2 [[1, 1]], Float1 [2], Float2 [[1, 1]]])"
  unfolding ao_log_hartree_lap_libnao_st_def
  apply (simp add: bind_st_def deepcopy_example)
  apply (simp add: obj_example_def store_example_def np_require_def py_range_def
      libnao_species_st_def libnao_call_st_def libnao_rescale_st_def example_routine_def
      read_float1_def read_float2_def read_int1_def lift_st_def bind_st_def
      enumerate_list_def read_row_def write_row_def store_rescaled_st_def
      fill_rcut_st_def fill_sp_mu2rcut_st_def fill_def Let_def)
  done

lemma deepcopy_fresh_result:
  assumes valid: "list_all (\<lambda>a. a < length h) (refs ao)"
  shows "fresh_result ao h (deepcopy ao h)"
proof -
  obtain r h1 where d: "deepcopy ao h = (r, h1)" by (cases "deepcopy ao h")
  from deepcopy_fresh[OF d] obtain p where p: "r = Inr p" "fresh (length h) p"
    "length h \<le> length h1" "take (length h) h1 = h" "list_all (\<lambda>a. a < length h1) (refs p)"
    "o_nr p = o_nr ao" "o_nspecies p = o_nspecies ao" "o_jmx p = o_jmx ao"
    "length (o_sp_mu2j p) = length (o_sp_mu2j ao)" "length (o_psi_log p) = length (o_psi_log ao)"
    by blast
  have disj: "set (refs p) \<inter> set (refs ao) = {}"
    using p(2) valid by (fastforce simp: fresh_def list_all_iff)
  have "list_all (\<lambda>a. length h \<le> a \<and> a < length h1) (refs p)"
    using p(2,5) by (simp add: fresh_def list_all_iff)
  then show ?thesis
    unfolding d using p disj by (simp add: fresh_result_def)
qed

subsection \<open>Rounding to \<^verbatim>\<open>float64\<close> and the range of a term\<close>

lemma pw_mono: "k \<le> l \<Longrightarrow> (2::real) powi k \<le> 2 powi l"
  by (rule power_int_increasing) simp_all

lemma pw_strict: "k < l \<Longrightarrow> (2::real) powi k < 2 powi l"
  by (rule power_int_strict_increasing) simp_all

lemma pw_le_D: "(2::real) powi k \<le> 2 powi l \<Longrightarrow> k \<le> l"
  using pw_strict[of l k] by (cases "k \<le> l") simp_all

lemma pw_less_D: "(2::real) powi k < 2 powi l \<Longrightarrow> k < l"
  using pw_mono[of l k] by (cases "k < l") simp_all

lemma pw_add: "(2::real) powi (a + b) = 2 powi a * 2 powi b"
  by (simp add: power_int_add)

lemma pw_diff: "(2::real) powi (a - b) = 2 powi a / 2 powi b"
  by (simp add: power_int_diff)

lemma pw_int: "0 \<le> k \<Longrightarrow> (2::real) powi k = of_int (2 ^ nat k)"
  by (simp add: power_int_nonneg_exp)

lemma floor_log2_bounds:
  assumes "0 < (x::real)"
  shows "2 powi \<lfloor>log 2 x\<rfloor> \<le> x" and "x < 2 powi (\<lfloor>log 2 x\<rfloor> + 1)"
proof -
  have a: "2 powr (of_int \<lfloor>log 2 x\<rfloor>) \<le> x \<and> x < 2 powr (of_int \<lfloor>log 2 x\<rfloor> + 1)"
    using floor_log_eq_powr_iff[of x 2 "\<lfloor>log 2 x\<rfloor>"] assms by simp
  have b: "(2::real) powr (of_int n) = 2 powi n" for n :: int
    by (rule powr_real_of_int') simp_all
  have c: "(2::real) powr (of_int \<lfloor>log 2 x\<rfloor> + 1) = 2 powi (\<lfloor>log 2 x\<rfloor> + 1)"
    using b[of "\<lfloor>log 2 x\<rfloor> + 1"] by simp
  show "2 powi \<lfloor>log 2 x\<rfloor> \<le> x" using a b by simp
  show "x < 2 powi (\<lfloor>log 2 x\<rfloor> + 1)" using a c by simp
qed

lemma rne_of_int [simp]: "rne (of_int n) = n"
  by (simp add: rne_def)

lemma rne_bounds: "\<lfloor>x\<rfloor> \<le> rne x" "rne x \<le> \<lfloor>x\<rfloor> + 1"
  by (simp_all add: rne_def Let_def)

lemma rne_mono:
  assumes "x \<le> y"
  shows "rne x \<le> rne y"
proof (cases "\<lfloor>x\<rfloor> = \<lfloor>y\<rfloor>")
  case True
  then show ?thesis using assms by (auto simp: rne_def Let_def)
next
  case False
  moreover have "\<lfloor>x\<rfloor> \<le> \<lfloor>y\<rfloor>" using assms by (rule floor_mono)
  ultimately have "\<lfloor>x\<rfloor> + 1 \<le> \<lfloor>y\<rfloor>" by simp
  then show ?thesis using rne_bounds(2)[of x] rne_bounds(1)[of y] by linarith
qed

lemma rne_le_int: "x \<le> of_int n \<Longrightarrow> rne x \<le> n"
  using rne_mono[of x "of_int n"] by simp

lemma rne_ge_int: "of_int n \<le> x \<Longrightarrow> n \<le> rne x"
  using rne_mono[of "of_int n" x] by simp

lemma quantum_cases:
  obtains (sub) "\<bar>x\<bar> < 2 powi (- 1022)" "quantum x = 2 powi (- 1074)"
  | (nor) e where "2 powi (- 1022) \<le> \<bar>x\<bar>" "quantum x = 2 powi (e - 52)"
      "2 powi e \<le> \<bar>x\<bar>" "\<bar>x\<bar> < 2 powi (e + 1)" "- 1022 \<le> e"
proof (cases "\<bar>x\<bar> < 2 powi (- 1022)")
  case True
  then show ?thesis using sub by (simp add: quantum_def)
next
  case False
  then have a: "2 powi (- 1022) \<le> \<bar>x\<bar>" by simp
  have "(0::real) < 2 powi (- 1022)" by simp
  with a have p: "0 < \<bar>x\<bar>" by linarith
  let ?e = "\<lfloor>log 2 \<bar>x\<bar>\<rfloor>"
  note b = floor_log2_bounds[OF p]
  have "(2::real) powi (- 1022) < 2 powi (?e + 1)" using a b(2) by linarith
  then have "- 1022 < ?e + 1" by (rule pw_less_D)
  then have "- 1022 \<le> ?e" by simp
  moreover have "quantum x = 2 powi (?e - 52)" using False by (simp add: quantum_def)
  ultimately show ?thesis using nor a b by blast
qed

lemma round64_Num:
  "round64 x = Num y \<Longrightarrow> y = of_int (rne (x / quantum x)) * quantum x"
  by (simp add: round64_def Let_def split: if_splits)

lemma round64_grid:
  assumes q: "quantum x = 2 powi m" and mk: "m \<le> k" and x: "\<bar>x\<bar> \<le> 2 powi k" and k: "k \<le> 1023"
  shows "\<exists>y. round64 x = Num y \<and> \<bar>y\<bar> \<le> 2 powi k"
proof -
  let ?N = "2 ^ nat (k - m) :: int"
  have N: "of_int ?N = (2::real) powi (k - m)" using mk by (simp add: pw_int)
  have qp: "(0::real) < 2 powi m" by simp
  have e: "(2::real) powi k = of_int ?N * 2 powi m"
    unfolding N by (simp flip: pw_add)
  have u: "x / 2 powi m \<le> of_int ?N"
    using x e qp by (simp add: pos_divide_le_eq)
  have l: "of_int (- ?N) \<le> x / 2 powi m"
    using x e qp by (simp add: pos_le_divide_eq)
  let ?r = "rne (x / 2 powi m)"
  have r: "?r \<le> ?N" "- ?N \<le> ?r"
    using rne_le_int[OF u] rne_ge_int[OF l] by simp_all
  then have "\<bar>?r\<bar> \<le> ?N" by simp
  then have "\<bar>of_int ?r :: real\<bar> \<le> of_int ?N"
    by (metis of_int_abs of_int_le_iff)
  then have "\<bar>of_int ?r * 2 powi m :: real\<bar> \<le> of_int ?N * 2 powi m"
    using qp by (simp add: abs_mult mult_right_mono)
  then have y: "\<bar>of_int ?r * 2 powi m :: real\<bar> \<le> 2 powi k" unfolding e .
  have "(2::real) powi k < 2 powi 1024" using k by (intro pw_strict) simp
  with y have "\<not> 2 powi 1024 \<le> \<bar>of_int ?r * 2 powi m :: real\<bar>" by linarith
  then have "round64 x = Num (of_int ?r * 2 powi m)"
    unfolding round64_def Let_def q by (simp only: if_False)
  with y show ?thesis by blast
qed

lemma round64_bounded:
  assumes x: "\<bar>x\<bar> \<le> 2 powi k" and k: "- 1074 \<le> k" "k \<le> 1023"
  shows "\<exists>y. round64 x = Num y \<and> \<bar>y\<bar> \<le> 2 powi k"
proof (cases x rule: quantum_cases)
  case sub
  show ?thesis by (rule round64_grid[OF sub(2) k(1) x k(2)])
next
  case (nor e)
  have "(2::real) powi e \<le> 2 powi k" using nor(3) x by linarith
  then have "e \<le> k" by (rule pw_le_D)
  then have "e - 52 \<le> k" by simp
  then show ?thesis by (rule round64_grid[OF nor(2) _ x k(2)])
qed

lemma grid_lower:
  assumes mk: "m \<le> k" and x: "2 powi k \<le> (x::real)"
  shows "(2::real) powi k \<le> of_int (rne (x / 2 powi m)) * 2 powi m"
proof -
  let ?N = "2 ^ nat (k - m) :: int"
  have N: "of_int ?N = (2::real) powi (k - m)" using mk by (simp add: pw_int)
  have e: "(2::real) powi k = of_int ?N * 2 powi m"
    unfolding N by (simp flip: pw_add)
  have "of_int ?N \<le> x / 2 powi m"
    using x e by (simp add: pos_le_divide_eq)
  from rne_ge_int[OF this] have "(of_int ?N :: real) \<le> of_int (rne (x / 2 powi m))"
    by (simp only: of_int_le_iff)
  then have "of_int ?N * 2 powi m \<le> of_int (rne (x / 2 powi m)) * (2::real) powi m"
    by (rule mult_right_mono) simp
  then show ?thesis unfolding e .
qed

lemma round64_lower:
  assumes x: "2 powi k \<le> x" and k: "- 1074 \<le> k" and r: "round64 x = Num y"
  shows "2 powi k \<le> y"
proof -
  have xp: "0 < x" using x zero_less_power_int[of "2::real" k] by linarith
  note y = round64_Num[OF r]
  show ?thesis
  proof (cases x rule: quantum_cases)
    case sub
    show ?thesis unfolding y sub(2) using k x by (rule grid_lower)
  next
    case (nor e)
    have ax: "\<bar>x\<bar> = x" using xp by simp
    have "(2::real) powi k < 2 powi (e + 1)" using x nor(4) ax by linarith
    then have "k < e + 1" by (rule pw_less_D)
    then have ke: "(2::real) powi k \<le> 2 powi e" by (intro pw_mono) simp
    have "e - 52 \<le> e" by simp
    moreover have "2 powi e \<le> x" using nor(3) ax by simp
    ultimately have "2 powi e \<le> y" unfolding y nor(2) by (rule grid_lower)
    with ke show ?thesis by linarith
  qed
qed

lemma round64_pow2:
  assumes "- 1074 \<le> k" "k \<le> 1023"
  shows "round64 (2 powi k) = Num (2 powi k)"
proof -
  have "\<bar>(2::real) powi k\<bar> \<le> 2 powi k" by simp
  from round64_bounded[OF this assms] obtain y where
    y: "round64 (2 powi k) = Num y" "\<bar>y\<bar> \<le> 2 powi k" by blast
  from round64_lower[OF order_refl assms(1) y(1)] have "2 powi k \<le> y" .
  with y(2) have "y = 2 powi k" by linarith
  with y(1) show ?thesis by simp
qed

lemma round64_zero_iff:
  assumes "0 \<le> x"
  shows "round64 x = Num 0 \<longleftrightarrow> x \<le> 2 powi (- 1075)"
proof
  assume le: "x \<le> 2 powi (- 1075)"
  have "(2::real) powi (- 1075) < 2 powi (- 1022)" by (intro pw_strict) simp
  with le assms have s: "\<bar>x\<bar> < 2 powi (- 1022)" by simp
  then have q: "quantum x = 2 powi (- 1074)" by (simp add: quantum_def)
  let ?t = "x / 2 powi (- 1074)"
  have h: "(2::real) powi (- 1075) = (1 / 2) * 2 powi (- 1074)"
    using pw_add[of "- 1" "- 1074"] by simp
  have t: "0 \<le> ?t" "?t \<le> 1 / 2"
    using assms le h by (simp_all add: pos_divide_le_eq)
  then have f: "\<lfloor>?t\<rfloor> = 0" by (simp add: floor_eq_iff)
  have "rne ?t = 0" using t f by (simp add: rne_def Let_def)
  then show "round64 x = Num 0" by (simp add: round64_def Let_def q)
next
  assume r: "round64 x = Num 0"
  show "x \<le> 2 powi (- 1075)"
  proof (rule ccontr)
    assume "\<not> x \<le> 2 powi (- 1075)"
    then have gt: "2 powi (- 1075) < x" by simp
    show False
    proof (cases "2 powi (- 1074) \<le> x")
      case True
      from round64_lower[OF True _ r] have "(2::real) powi (- 1074) \<le> 0" by simp
      then show False using zero_less_power_int[of "2::real" "- 1074"] by linarith
    next
      case False
      then have lt: "x < 2 powi (- 1074)" by simp
      have "(2::real) powi (- 1074) < 2 powi (- 1022)" by (intro pw_strict) simp
      with lt assms have s: "\<bar>x\<bar> < 2 powi (- 1022)" by simp
      then have q: "quantum x = 2 powi (- 1074)" by (simp add: quantum_def)
      let ?t = "x / 2 powi (- 1074)"
      have h: "(2::real) powi (- 1075) = (1 / 2) * 2 powi (- 1074)"
        using pw_add[of "- 1" "- 1074"] by simp
      have t: "1 / 2 < ?t" "?t < 1"
        using gt lt h by (simp_all add: pos_less_divide_eq pos_divide_less_eq)
      then have f: "\<lfloor>?t\<rfloor> = 0" by (simp add: floor_eq_iff)
      have "rne ?t = 1" using t f by (simp add: rne_def Let_def)
      with round64_Num[OF r] q show False by simp
    qed
  qed
qed

lemma f64_pow_pos: "0 < x \<Longrightarrow> f64_pow (Num x) n = round64 (x powi n)"
  using round64_pow2[of 0] by (simp add: f64_pow_def)

lemma py_max_Num [simp]: "py_max (Num a) (Num b) = Num (max a b)"
  by (simp add: py_max_def max_def)

lemma py_min_Num [simp]: "py_min (Num a) (Num b) = Num (min a b)"
  by (simp add: py_min_def min_def)

lemma divisor_zero_iff:
  assumes "0 < a" "0 < b"
  shows "f64_pow (py_max (Num a) (Num b)) n = Num 0 \<longleftrightarrow> max a b powi n \<le> 2 powi (- 1075)"
proof -
  have m: "0 < max a b" using assms by simp
  then have "0 \<le> max a b powi n" by simp
  from round64_zero_iff[OF this] show ?thesis
    unfolding py_max_Num f64_pow_pos[OF m] .
qed

lemma powi_range:
  assumes x: "2 powi (- B) \<le> (x::real)" "x \<le> 2 powi B" and n: "0 \<le> n"
  shows "2 powi (- (B * n)) \<le> x powi n" and "x powi n \<le> 2 powi (B * n)"
proof -
  have p: "(0::real) \<le> 2 powi (- B)" by simp
  have xp: "0 \<le> x" using x(1) p by linarith
  have "((2::real) powi (- B)) powi n \<le> x powi n" using x(1) n p by (rule power_int_mono)
  moreover have "((2::real) powi (- B)) powi n = 2 powi (- (B * n))"
    by (simp flip: power_int_mult)
  ultimately show "2 powi (- (B * n)) \<le> x powi n" by simp
  have "x powi n \<le> ((2::real) powi B) powi n" using x(2) n xp by (rule power_int_mono)
  moreover have "((2::real) powi B) powi n = 2 powi (B * n)"
    by (simp flip: power_int_mult)
  ultimately show "x powi n \<le> 2 powi (B * n)" by simp
qed

lemma term_finite:
  assumes a: "2 powi (- B) \<le> a" "a \<le> 2 powi B" and b: "2 powi (- B) \<le> b" "b \<le> 2 powi B"
    and am: "0 \<le> am" and B: "0 \<le> B" and C: "0 \<le> C" and bd: "B * (2 * am + 1) + C \<le> 1023"
    and c: "\<bar>c\<bar> \<le> 2 powi C"
  shows "\<exists>d t. f64_pow (py_max (Num a) (Num b)) (am + 1) = Num d \<and> d \<noteq> 0 \<and>
           f64_mul (f64_div (f64_pow (py_min (Num a) (Num b)) am)
                            (f64_pow (py_max (Num a) (Num b)) (am + 1))) (Num c) = Num t"
proof -
  let ?mn = "min a b" and ?mx = "max a b"
  have p: "(0::real) < 2 powi (- B)" by simp
  have mn: "2 powi (- B) \<le> ?mn" "?mn \<le> 2 powi B" using a b by simp_all
  have mx: "2 powi (- B) \<le> ?mx" "?mx \<le> 2 powi B" using a b by (simp_all add: max_def)
  have mnp: "0 < ?mn" using mn(1) p by linarith
  have mxp: "0 < ?mx" using mx(1) p by linarith
  have i1: "0 \<le> B * am" "0 \<le> B * (am + 1)" using am B by simp_all
  have i2: "B * (2 * am + 1) = B * am + B * (am + 1)" by (simp add: algebra_simps)
  have i3: "B * (2 * am + 1) = B * am - (- (B * (am + 1)))" using i2 by simp
  have k1: "B * am \<le> 1023" "B * (am + 1) \<le> 1023" "B * (2 * am + 1) \<le> 1023"
    using i1 i2 bd C by linarith+
  have am1: "0 \<le> am + 1" using am by simp
  have "\<bar>?mn powi am\<bar> \<le> 2 powi (B * am)"
    using powi_range(2)[OF mn am] mnp by simp
  from round64_bounded[OF this] i1(1) k1(1) obtain l where
    l: "round64 (?mn powi am) = Num l" "\<bar>l\<bar> \<le> 2 powi (B * am)" by auto
  have "\<bar>?mx powi (am + 1)\<bar> \<le> 2 powi (B * (am + 1))"
    using powi_range(2)[OF mx am1] mxp by simp
  from round64_bounded[OF this] i1(2) k1(2) obtain d where
    d: "round64 (?mx powi (am + 1)) = Num d" by auto
  have "- 1074 \<le> - (B * (am + 1))" using k1(2) by simp
  from round64_lower[OF powi_range(1)[OF mx am1] this d]
  have dl: "2 powi (- (B * (am + 1))) \<le> d" .
  have q0: "(0::real) < 2 powi (- (B * (am + 1)))" by simp
  have dp: "0 < d" using dl q0 by linarith
  have "\<bar>l / d\<bar> = \<bar>l\<bar> / d" using dp by simp
  also have "\<dots> \<le> 2 powi (B * am) / d"
    using l(2) dp by (simp add: divide_right_mono)
  also have "\<dots> \<le> 2 powi (B * am) / 2 powi (- (B * (am + 1)))"
    using dl dp by (intro divide_left_mono mult_pos_pos) simp_all
  also have "\<dots> = 2 powi (B * (2 * am + 1))"
    unfolding i3 by (rule pw_diff[symmetric])
  finally have "\<bar>l / d\<bar> \<le> 2 powi (B * (2 * am + 1))" .
  from round64_bounded[OF this] i1 i2 k1(3) obtain q where
    q: "round64 (l / d) = Num q" "\<bar>q\<bar> \<le> 2 powi (B * (2 * am + 1))" by auto
  have "\<bar>q * c\<bar> = \<bar>q\<bar> * \<bar>c\<bar>" by (rule abs_mult)
  also have "\<dots> \<le> 2 powi (B * (2 * am + 1)) * 2 powi C"
    using q(2) c by (intro mult_mono) simp_all
  also have "\<dots> = 2 powi (B * (2 * am + 1) + C)" by (simp add: power_int_add)
  finally have "\<bar>q * c\<bar> \<le> 2 powi (B * (2 * am + 1) + C)" .
  from round64_bounded[OF this] i1 i2 C bd obtain t where
    t: "round64 (q * c) = Num t" by auto
  have "f64_pow (py_max (Num a) (Num b)) (am + 1) = Num d"
    using d by (simp add: f64_pow_pos[OF mxp])
  moreover have "f64_pow (py_min (Num a) (Num b)) am = Num l"
    using l by (simp add: f64_pow_pos[OF mnp])
  moreover have "f64_mul (f64_div (Num l) (Num d)) (Num c) = Num t"
    using dp q t by simp
  ultimately show ?thesis using dp by auto
qed

lemma lap_term_f64_Num:
  assumes "ir < length rs" "irp < length rs" "irp < length gs"
  shows "lap_term_f64 (map Num rs) gs am ir irp =
     Inr (f64_mul (f64_div (f64_pow (py_min (Num (rs ! ir)) (Num (rs ! irp))) am)
                           (f64_pow (py_max (Num (rs ! ir)) (Num (rs ! irp))) (am + 1)))
                  (gs ! irp))"
  using assms by (simp add: lap_term_f64_def Let_def del: py_max_Num py_min_Num)

section \<open>The claims\<close>


text \<open>
  Claim C6. Whatever the direct quadrature or the transform solver returns has the frame of
  the input: species count, multiplets per species, angular momenta and lengths of the radial
  arrays; and on a well-formed orbital set both do return.
\<close>

theorem shape_preservation:
  "(\<forall>pot. ao_log_hartree_lap ao = Inr pot \<longrightarrow> same_frame pot ao) \<and>
   (\<forall>pot. ao_log_hartree_sbt sbt_c ao = Inr pot \<longrightarrow> same_frame pot ao) \<and>
   (wf_ao ao \<longrightarrow> (\<exists>pot. ao_log_hartree_lap ao = Inr pot)) \<and>
   (wf_ao ao \<and> wf_pp ao \<and> wf_jmx ao \<and> sbt_c (rr ao) (pp ao) (jmx ao) = Inr sbt \<and>
    engine_contract sbt (nr ao) (jmx ao)
      \<longrightarrow> (\<exists>pot. ao_log_hartree_sbt sbt_c ao = Inr pot))"
proof (intro conjI allI impI)
  fix pot assume "ao_log_hartree_lap ao = Inr pot"
  then show "same_frame pot ao" by (rule ao_log_hartree_lap_frame)
next
  fix pot assume "ao_log_hartree_sbt sbt_c ao = Inr pot"
  then show "same_frame pot ao" by (rule ao_log_hartree_sbt_frame)
next
  assume "wf_ao ao"
  then show "\<exists>pot. ao_log_hartree_lap ao = Inr pot" by (simp add: ao_log_hartree_lap_wf)
next
  assume a: "wf_ao ao \<and> wf_pp ao \<and> wf_jmx ao \<and> sbt_c (rr ao) (pp ao) (jmx ao) = Inr sbt \<and>
    engine_contract sbt (nr ao) (jmx ao)"
  then have "length (pp ao) = nr ao" by (simp add: wf_pp_def)
  with a show "\<exists>pot. ao_log_hartree_sbt sbt_c ao = Inr pot"
    using ao_log_hartree_sbt_wf[where sbt_c = sbt_c and sbt = sbt and ao = ao] by simp
qed

text \<open>
  The second orbital set keeps its two species, its multiplet counts 1 and 2, its angular
  momenta and its three grid points.
\<close>

theorem shape_preservation_witness:
  "wf_ao ao_example2 \<and> wf_pp ao_example2 \<and> wf_jmx ao_example2 \<and>
   example_sbt_c (rr ao_example2) (pp ao_example2) (jmx ao_example2) = Inr (example_engine (jmx ao_example2)) \<and>
   engine_contract (example_engine (jmx ao_example2)) (nr ao_example2) (jmx ao_example2) \<and>
   (\<exists>pot. ao_log_hartree_lap ao_example2 = Inr pot \<and> nspecies pot = 2 \<and>
      map length (psi_log pot) = [1, 2] \<and> sp_mu2j pot = [[0], [1, 2]] \<and>
      map (map length) (psi_log pot) = [[3], [3, 3]]) \<and>
   (\<exists>pot. ao_log_hartree_sbt example_sbt_c ao_example2 = Inr pot \<and> nspecies pot = 2 \<and>
      map length (psi_log pot) = [1, 2] \<and> sp_mu2j pot = [[0], [1, 2]] \<and>
      map (map length) (psi_log pot) = [[3], [3, 3]])"
proof -
  note t = shape_preservation[of ao_example2 example_sbt_c "example_engine (jmx ao_example2)"]
  have e: "\<And>pot. same_frame pot ao_example2 \<Longrightarrow> nspecies pot = 2 \<and>
      map length (psi_log pot) = [1, 2] \<and> sp_mu2j pot = [[0], [1, 2]] \<and>
      map (map length) (psi_log pot) = [[3], [3, 3]]"
    by (simp add: same_frame_def ao_example2_def)
  from t wf_ao_example2 example2_contracts(1-4)
  obtain p1 p2 where "ao_log_hartree_lap ao_example2 = Inr p1" "same_frame p1 ao_example2"
    "ao_log_hartree_sbt example_sbt_c ao_example2 = Inr p2" "same_frame p2 ao_example2"
    by blast
  then show ?thesis using e wf_ao_example2 example2_contracts(1-4) by blast
qed
text \<open>
  Claim C3. The dispatcher calls the library-backed Laplace solver exactly when the
  upper-cased method name is \<open>LAP\<close>, the transform solver exactly when it is \<open>SBT\<close>, and
  for every other name it calls neither and raises \<^verbatim>\<open>RuntimeError('!method')\<close>.
\<close>

theorem dispatcher_selects:
  "(Lap_libnao \<in> set (fst (ao_log_hartree ao_log_new f sbt_c ao m)) \<longleftrightarrow> upper m = ''LAP'') \<and>
   (Sbt \<in> set (fst (ao_log_hartree ao_log_new f sbt_c ao m)) \<longleftrightarrow> upper m = ''SBT'') \<and>
   (upper m = ''LAP'' \<longrightarrow>
      ao_log_hartree ao_log_new f sbt_c ao m = ([Lap_libnao], ao_log_hartree_lap_libnao ao_log_new f ao)) \<and>
   (upper m = ''SBT'' \<longrightarrow>
      ao_log_hartree ao_log_new f sbt_c ao m = ([Sbt], ao_log_hartree_sbt sbt_c ao)) \<and>
   (upper m \<noteq> ''LAP'' \<and> upper m \<noteq> ''SBT'' \<longrightarrow>
      ao_log_hartree ao_log_new f sbt_c ao m = ([], Inl (RuntimeError ''!method'')))"
  by (simp add: ao_log_hartree_def)

text \<open>
  The names \<open>lap\<close>, \<open>Sbt\<close> and \<open>xyz\<close>.
\<close>

theorem dispatcher_selects_witness:
  "upper ''lap'' = ''LAP'' \<and> upper ''Sbt'' = ''SBT'' \<and> upper ''xyz'' \<noteq> ''LAP'' \<and> upper ''xyz'' \<noteq> ''SBT'' \<and>
   ao_log_hartree example_ao_log_new example_routine example_sbt_c ao_example ''lap'' =
     ([Lap_libnao], ao_log_hartree_lap_libnao example_ao_log_new example_routine ao_example) \<and>
   ao_log_hartree example_ao_log_new example_routine example_sbt_c ao_example ''Sbt'' =
     ([Sbt], ao_log_hartree_sbt example_sbt_c ao_example) \<and>
   ao_log_hartree example_ao_log_new example_routine example_sbt_c ao_example ''xyz'' =
     ([], Inl (RuntimeError ''!method''))"
  using dispatcher_selects[of example_ao_log_new example_routine example_sbt_c ao_example "''lap''"]
    dispatcher_selects[of example_ao_log_new example_routine example_sbt_c ao_example "''Sbt''"]
    dispatcher_selects[of example_ao_log_new example_routine example_sbt_c ao_example "''xyz''"]
  by (simp add: upper_examples)
text \<open>
  Claim C10. The direct quadrature takes \<open>dr = log (rr[1] / rr[0])\<close> from the first two
  grid points and uses this one number for every term of every multiplet. Uniform spacing is
  no part of \<open>wf_ao\<close> and is never checked: two grids with the same first two points get the
  same \<open>dr\<close>, whatever their further points are.
\<close>

theorem spacing_from_first_two_points:
  assumes wf: "wf_ao ao" "wf_ao ao'"
    and same: "rr ao ! 0 = rr ao' ! 0" "rr ao ! 1 = rr ao' ! 1"
    and ix: "sp < nspecies ao" "mu < length (sp_mu2j ao ! sp)" "ir < nr ao"
    and ix': "sp' < nspecies ao'" "mu' < length (sp_mu2j ao' ! sp')" "ir' < nr ao'"
  shows "\<exists>pot pot' dr. dr = ln (rr ao ! 1 / rr ao ! 0) \<and>
           ao_log_hartree_lap ao = Inr pot \<and> ao_log_hartree_lap ao' = Inr pot' \<and>
           psi_log pot ! sp ! mu ! ir =
             (4 * pi * dr) / (2 * of_int (sp_mu2j ao ! sp ! mu) + 1) *
               lap_sum (rr ao) (psi_log ao ! sp ! mu) (sp_mu2j ao ! sp ! mu) ir \<and>
           psi_log pot' ! sp' ! mu' ! ir' =
             (4 * pi * dr) / (2 * of_int (sp_mu2j ao' ! sp' ! mu') + 1) *
               lap_sum (rr ao') (psi_log ao' ! sp' ! mu') (sp_mu2j ao' ! sp' ! mu') ir'"
proof -
  have rs: "length (rr ao) = nr ao" "length (rr ao') = nr ao'" using wf by (simp_all add: wf_ao_def)
  have "psi_log (lap_result ao) ! sp ! mu ! ir =
             (4 * pi * ln (rr ao ! 1 / rr ao ! 0)) / (2 * of_int (sp_mu2j ao ! sp ! mu) + 1) *
               lap_sum (rr ao) (psi_log ao ! sp ! mu) (sp_mu2j ao ! sp ! mu) ir"
    using ix rs by (simp add: psi_log_lap_result lap_psi_def)
  moreover have "psi_log (lap_result ao') ! sp' ! mu' ! ir' =
             (4 * pi * ln (rr ao ! 1 / rr ao ! 0)) / (2 * of_int (sp_mu2j ao' ! sp' ! mu') + 1) *
               lap_sum (rr ao') (psi_log ao' ! sp' ! mu') (sp_mu2j ao' ! sp' ! mu') ir'"
    using ix' rs same by (simp add: psi_log_lap_result lap_psi_def)
  ultimately show ?thesis
    using ao_log_hartree_lap_wf[OF wf(1)] ao_log_hartree_lap_wf[OF wf(2)] by simp
qed

text \<open>
  The grids \<open>1, 2, 4, 8\<close> and \<open>1, 2, 4, 100\<close>: both potentials carry the factor \<open>ln 2\<close>.
\<close>

theorem spacing_from_first_two_points_witness:
  "wf_ao ao_example \<and> wf_ao ao_example_nonuniform \<and>
   rr ao_example = [1, 2, 4, 8] \<and> rr ao_example_nonuniform = [1, 2, 4, 100] \<and>
   (\<exists>pot pot'. ao_log_hartree_lap ao_example = Inr pot \<and>
      ao_log_hartree_lap ao_example_nonuniform = Inr pot' \<and>
      psi_log pot ! 0 ! 0 ! 0 = 4 * pi * ln 2 * (1 + 4 + 16 + 64) \<and>
      psi_log pot' ! 0 ! 0 ! 0 = 4 * pi * ln 2 * (1 + 4 + 16 + 10000))"
proof -
  have h: "rr ao_example ! 0 = rr ao_example_nonuniform ! 0" "rr ao_example ! 1 = rr ao_example_nonuniform ! 1"
    "(0::nat) < nspecies ao_example" "(0::nat) < length (sp_mu2j ao_example ! 0)" "(0::nat) < nr ao_example"
    "(0::nat) < nspecies ao_example_nonuniform" "(0::nat) < length (sp_mu2j ao_example_nonuniform ! 0)"
    "(0::nat) < nr ao_example_nonuniform"
    by (simp_all add: ao_example_nonuniform_def ao_example_def)
  have s: "{..<4::nat} = {0, 1, 2, 3}" by auto
  have e: "lap_sum (rr ao_example) (psi_log ao_example ! 0 ! 0) 0 0 = 1 + 4 + 16 + 64"
    "lap_sum (rr ao_example_nonuniform) (psi_log ao_example_nonuniform ! 0 ! 0) 0 0 = 1 + 4 + 16 + 10000"
    by (simp_all add: lap_sum_def hartree_kernel_def ao_example_nonuniform_def ao_example_def s)
  have d: "ln (rr ao_example ! 1 / rr ao_example ! 0) = ln 2" by (simp add: ao_example_def)
  have j: "sp_mu2j ao_example ! 0 ! 0 = 0" "sp_mu2j ao_example_nonuniform ! 0 ! 0 = 0"
    by (simp_all add: ao_example_nonuniform_def ao_example_def)
  from spacing_from_first_two_points[OF wf_ao_example wf_ao_example_nonuniform h]
  obtain pot pot' dr where "dr = ln 2" "ao_log_hartree_lap ao_example = Inr pot"
      "ao_log_hartree_lap ao_example_nonuniform = Inr pot'"
      "psi_log pot ! 0 ! 0 ! 0 = 4 * pi * dr / (2 * of_int 0 + 1) * (1 + 4 + 16 + 64)"
      "psi_log pot' ! 0 ! 0 ! 0 = 4 * pi * dr / (2 * of_int 0 + 1) * (1 + 4 + 16 + 10000)"
    unfolding d j unfolding e by blast
  then have "\<exists>pot pot'. ao_log_hartree_lap ao_example = Inr pot \<and>
      ao_log_hartree_lap ao_example_nonuniform = Inr pot' \<and>
      psi_log pot ! 0 ! 0 ! 0 = 4 * pi * ln 2 * (1 + 4 + 16 + 64) \<and>
      psi_log pot' ! 0 ! 0 ! 0 = 4 * pi * ln 2 * (1 + 4 + 16 + 10000)"
    by simp
  moreover have "rr ao_example = [1, 2, 4, 8]" "rr ao_example_nonuniform = [1, 2, 4, 100]"
    by (simp_all add: ao_example_nonuniform_def ao_example_def)
  ultimately show ?thesis using wf_ao_example wf_ao_example_nonuniform by blast
qed

text \<open>
  Claim C4. Whatever the cutoffs of the input are, the potential set that a solver returns on
  a well-formed orbital set has all its cutoffs, one per species and one per multiplet, equal
  to the outermost radius \<open>rr[nr - 1]\<close>. This holds for the direct quadrature, for the
  transform solver with any engine, and for the library-backed solver with any routine once
  the constructor has given the potential set the shape of the input. Each solver does return:
  the direct quadrature always, the other two when their collaborators keep their
  contracts.
\<close>

theorem cutoff_normalization:
  assumes wf: "wf_ao ao"
  shows "(\<forall>pot. ao_log_hartree_lap ao = Inr pot \<longrightarrow> cutoffs_reset ao pot) \<and>
         (\<forall>pot. ao_log_hartree_sbt sbt_c ao = Inr pot \<longrightarrow> cutoffs_reset ao pot) \<and>
         (\<forall>pot. ao_log_new ao = Inr p \<and> same_shape p ao \<and>
                ao_log_hartree_lap_libnao ao_log_new f ao = Inr pot \<longrightarrow> cutoffs_reset ao pot) \<and>
         (\<exists>pot. ao_log_hartree_lap ao = Inr pot) \<and>
         (wf_pp ao \<and> wf_jmx ao \<and> sbt_c (rr ao) (pp ao) (jmx ao) = Inr sbt \<and>
          engine_contract sbt (nr ao) (jmx ao) \<longrightarrow>
            (\<exists>pot. ao_log_hartree_sbt sbt_c ao = Inr pot)) \<and>
         (ao_log_new ao = Inr p \<and> same_shape p ao \<and> routine_contract f \<and>
          nspecies ao \<le> length (sp2nmult ao) \<longrightarrow>
            (\<exists>pot. ao_log_hartree_lap_libnao ao_log_new f ao = Inr pot))"
proof (intro conjI allI impI)
  fix pot assume "ao_log_hartree_lap ao = Inr pot"
  then have "pot = lap_result ao" using ao_log_hartree_lap_wf[OF wf] by simp
  moreover have "cutoffs_reset ao (lap_result ao)"
    unfolding lap_result_def by (rule cutoffs_reset_rcut_reset[OF wf]) simp_all
  ultimately show "cutoffs_reset ao pot" by simp
next
  fix pot assume "ao_log_hartree_sbt sbt_c ao = Inr pot"
  then show "cutoffs_reset ao pot" using wf by (rule ao_log_hartree_sbt_cutoffs)
next
  fix pot assume "ao_log_new ao = Inr p \<and> same_shape p ao \<and>
                ao_log_hartree_lap_libnao ao_log_new f ao = Inr pot"
  then show "cutoffs_reset ao pot"
    using ao_log_hartree_lap_libnao_cutoffs[where ao_log_new = ao_log_new and f = f, OF _ wf] by blast
next
  show "\<exists>pot. ao_log_hartree_lap ao = Inr pot" using ao_log_hartree_lap_wf[OF wf] by simp
next
  assume a: "wf_pp ao \<and> wf_jmx ao \<and> sbt_c (rr ao) (pp ao) (jmx ao) = Inr sbt \<and>
          engine_contract sbt (nr ao) (jmx ao)"
  then have "length (pp ao) = nr ao" by (simp add: wf_pp_def)
  with a show "\<exists>pot. ao_log_hartree_sbt sbt_c ao = Inr pot"
    using ao_log_hartree_sbt_wf[where sbt_c = sbt_c and sbt = sbt, OF wf] by simp
next
  assume a: "ao_log_new ao = Inr p \<and> same_shape p ao \<and> routine_contract f \<and>
          nspecies ao \<le> length (sp2nmult ao)"
  then show "\<exists>pot. ao_log_hartree_lap_libnao ao_log_new f ao = Inr pot"
    using ao_log_hartree_lap_libnao_wf[where ao_log_new = ao_log_new and f = f and p = p, OF wf] by simp
qed

text \<open>
  The scenario, whose cutoffs are 3 on input and 8, the last grid point, on output.
\<close>

theorem cutoff_normalization_witness:
  "wf_ao ao_example \<and> wf_pp ao_example \<and> wf_jmx ao_example \<and>
   example_sbt_c (rr ao_example) (pp ao_example) (jmx ao_example) = Inr (example_engine (jmx ao_example)) \<and>
   engine_contract (example_engine (jmx ao_example)) (nr ao_example) (jmx ao_example) \<and>
   example_ao_log_new ao_example = Inr ao_example \<and> same_shape ao_example ao_example \<and>
   routine_contract example_routine \<and> nspecies ao_example \<le> length (sp2nmult ao_example) \<and>
   sp_mu2rcut ao_example = [[3]] \<and> sp2rcut ao_example = [3] \<and>
   (\<exists>pot. ao_log_hartree_lap ao_example = Inr pot \<and> sp_mu2rcut pot = [[8]] \<and> sp2rcut pot = [8]) \<and>
   (\<exists>pot. ao_log_hartree_sbt example_sbt_c ao_example = Inr pot \<and> sp_mu2rcut pot = [[8]] \<and> sp2rcut pot = [8]) \<and>
   (\<exists>pot. ao_log_hartree_lap_libnao example_ao_log_new example_routine ao_example = Inr pot \<and>
          sp_mu2rcut pot = [[8]] \<and> sp2rcut pot = [8])"
proof -
  have e: "\<And>pot. cutoffs_reset ao_example pot \<Longrightarrow> sp_mu2rcut pot = [[8]] \<and> sp2rcut pot = [8]"
  proof -
    fix pot assume c: "cutoffs_reset ao_example pot"
    obtain a where a: "sp_mu2rcut pot = [a]"
      using c by (auto simp: cutoffs_reset_def ao_example_def length_Suc_conv)
    obtain b where b: "sp2rcut pot = [b]"
      using c by (auto simp: cutoffs_reset_def ao_example_def length_Suc_conv)
    obtain x where x: "a = [x]"
      using c a by (auto simp: cutoffs_reset_def ao_example_def length_Suc_conv)
    show "sp_mu2rcut pot = [[8]] \<and> sp2rcut pot = [8]"
      using c a b x by (simp add: cutoffs_reset_def ao_example_def)
  qed
  have i: "sp_mu2rcut ao_example = [[3]]" "sp2rcut ao_example = [3]" by (simp_all add: ao_example_def)
  note t = cutoff_normalization[where sbt_c = example_sbt_c and ao_log_new = example_ao_log_new
      and f = example_routine and p = ao_example and sbt = "example_engine (jmx ao_example)",
      OF wf_ao_example]
  from t obtain p1 where p1: "ao_log_hartree_lap ao_example = Inr p1" "cutoffs_reset ao_example p1"
    by blast
  from t example_contracts obtain p2 where
    p2: "ao_log_hartree_sbt example_sbt_c ao_example = Inr p2" "cutoffs_reset ao_example p2"
    by blast
  from t example_contracts obtain p3 where
    p3: "ao_log_hartree_lap_libnao example_ao_log_new example_routine ao_example = Inr p3"
        "cutoffs_reset ao_example p3"
    by blast
  from p1 p2 p3 e wf_ao_example example_contracts i show ?thesis by blast
qed

text \<open>
  Claim C5. In the potential set that a solver returns on a well-formed orbital set, for every
  multiplet, of angular momentum \<open>j\<close>, and every grid index \<open>ir\<close>, the stored rescaled function
  is the potential divided by \<open>rr[ir]\<^sup>j\<close>. This holds for the direct quadrature, for the
  transform solver with any engine, and for the library-backed solver with any constructor and
  any routine, at every index that the array returned by the routine has, which are all the
  grid indices when the collaborators keep their contracts.
\<close>

theorem rescaled_form_consistency:
  assumes wf: "wf_ao ao"
    and ix: "sp < nspecies ao" "mu < length (sp_mu2j ao ! sp)" "ir < nr ao"
    and j: "j = sp_mu2j ao ! sp ! mu"
  shows "(\<forall>pot. ao_log_hartree_lap ao = Inr pot \<longrightarrow>
            psi_log_rl pot ! sp ! mu ! ir = psi_log pot ! sp ! mu ! ir / power_int (rr ao ! ir) j) \<and>
         (\<forall>pot. ao_log_hartree_sbt sbt_c ao = Inr pot \<longrightarrow>
            psi_log_rl pot ! sp ! mu ! ir = psi_log pot ! sp ! mu ! ir / power_int (rr ao ! ir) j) \<and>
         (\<forall>pot. ao_log_hartree_lap_libnao ao_log_new f ao = Inr pot \<and>
                ir < length (psi_log pot ! sp ! mu) \<longrightarrow>
            psi_log_rl pot ! sp ! mu ! ir = psi_log pot ! sp ! mu ! ir / power_int (rr ao ! ir) j) \<and>
         (\<exists>pot. ao_log_hartree_lap ao = Inr pot) \<and>
         (wf_pp ao \<and> wf_jmx ao \<and> sbt_c (rr ao) (pp ao) (jmx ao) = Inr sbt \<and>
          engine_contract sbt (nr ao) (jmx ao) \<longrightarrow>
            (\<exists>pot. ao_log_hartree_sbt sbt_c ao = Inr pot)) \<and>
         (ao_log_new ao = Inr p \<and> same_shape p ao \<and> routine_contract f \<and>
          nspecies ao \<le> length (sp2nmult ao) \<longrightarrow>
            (\<exists>pot. ao_log_hartree_lap_libnao ao_log_new f ao = Inr pot \<and>
                   length (psi_log pot ! sp ! mu) = nr ao))"
proof (intro conjI allI impI)
  have rs: "length (rr ao) = nr ao" using wf by (simp add: wf_ao_def)
  fix pot assume "ao_log_hartree_lap ao = Inr pot"
  then have "pot = lap_result ao" using ao_log_hartree_lap_wf[OF wf] by simp
  then show "psi_log_rl pot ! sp ! mu ! ir = psi_log pot ! sp ! mu ! ir / power_int (rr ao ! ir) j"
    using ix rs j
    by (simp add: lap_result_def rescaled_rows_of_nth rows_of_nth lap_psi_def)
next
  fix pot assume s: "ao_log_hartree_sbt sbt_c ao = Inr pot"
  from ao_log_hartree_sbt_rescaled[OF s wf ix(1,2)] ix(3) j
  show "psi_log_rl pot ! sp ! mu ! ir = psi_log pot ! sp ! mu ! ir / power_int (rr ao ! ir) j"
    by (simp add: rescaled_row_def)
next
  fix pot assume s: "ao_log_hartree_lap_libnao ao_log_new f ao = Inr pot \<and>
                ir < length (psi_log pot ! sp ! mu)"
  then have "rescaled_row ao pot sp mu"
    using ao_log_hartree_lap_libnao_rescaled[where ao_log_new = ao_log_new and f = f, OF _ wf ix(1,2)]
    by blast
  with s j show "psi_log_rl pot ! sp ! mu ! ir = psi_log pot ! sp ! mu ! ir / power_int (rr ao ! ir) j"
    by (simp add: rescaled_row_def)
next
  show "\<exists>pot. ao_log_hartree_lap ao = Inr pot" using ao_log_hartree_lap_wf[OF wf] by simp
next
  assume a: "wf_pp ao \<and> wf_jmx ao \<and> sbt_c (rr ao) (pp ao) (jmx ao) = Inr sbt \<and>
          engine_contract sbt (nr ao) (jmx ao)"
  then have "length (pp ao) = nr ao" by (simp add: wf_pp_def)
  with a show "\<exists>pot. ao_log_hartree_sbt sbt_c ao = Inr pot"
    using ao_log_hartree_sbt_wf[where sbt_c = sbt_c and sbt = sbt, OF wf] by simp
next
  assume a: "ao_log_new ao = Inr p \<and> same_shape p ao \<and> routine_contract f \<and>
          nspecies ao \<le> length (sp2nmult ao)"
  then have r: "ao_log_hartree_lap_libnao ao_log_new f ao = Inr (libnao_result f ao p)"
    using ao_log_hartree_lap_libnao_wf[where ao_log_new = ao_log_new and f = f and p = p, OF wf] by simp
  from a have sh: "same_shape p ao" and rc: "routine_contract f" by simp_all
  have "length (psi_log (libnao_result f ao p) ! sp ! mu) = nr ao"
    using ix libnao_pot_shape(2)[OF wf sh rc ix(1,2)] by (simp add: libnao_result_def)
  with r show "\<exists>pot. ao_log_hartree_lap_libnao ao_log_new f ao = Inr pot \<and>
                   length (psi_log pot ! sp ! mu) = nr ao"
    by blast
qed

text \<open>
  The second orbital set, at the multiplet of angular momentum 2 and the grid point 4:
  the divisor is 16.
\<close>

theorem rescaled_form_consistency_witness:
  "wf_ao ao_example2 \<and> wf_pp ao_example2 \<and> wf_jmx ao_example2 \<and>
   example_sbt_c (rr ao_example2) (pp ao_example2) (jmx ao_example2) = Inr (example_engine (jmx ao_example2)) \<and>
   engine_contract (example_engine (jmx ao_example2)) (nr ao_example2) (jmx ao_example2) \<and>
   example_ao_log_new ao_example2 = Inr ao_example2 \<and> same_shape ao_example2 ao_example2 \<and>
   routine_contract example_routine \<and> nspecies ao_example2 \<le> length (sp2nmult ao_example2) \<and>
   (1::nat) < nspecies ao_example2 \<and> (1::nat) < length (sp_mu2j ao_example2 ! 1) \<and>
   (2::nat) < nr ao_example2 \<and> 2 = sp_mu2j ao_example2 ! 1 ! 1 \<and>
   (\<exists>pot. ao_log_hartree_lap ao_example2 = Inr pot \<and>
      psi_log_rl pot ! 1 ! 1 ! 2 = psi_log pot ! 1 ! 1 ! 2 / 16) \<and>
   (\<exists>pot. ao_log_hartree_sbt example_sbt_c ao_example2 = Inr pot \<and>
      psi_log_rl pot ! 1 ! 1 ! 2 = psi_log pot ! 1 ! 1 ! 2 / 16) \<and>
   (\<exists>pot. ao_log_hartree_lap_libnao example_ao_log_new example_routine ao_example2 = Inr pot \<and>
      (2::nat) < length (psi_log pot ! 1 ! 1) \<and>
      psi_log_rl pot ! 1 ! 1 ! 2 = psi_log pot ! 1 ! 1 ! 2 / 16)"
proof -
  have h: "(1::nat) < nspecies ao_example2" "(1::nat) < length (sp_mu2j ao_example2 ! 1)"
   "(2::nat) < nr ao_example2" "2 = sp_mu2j ao_example2 ! 1 ! 1"
    by (simp_all add: ao_example2_def)
  have r: "power_int (rr ao_example2 ! 2) 2 = 16" by (simp add: ao_example2_def)
  have n: "nr ao_example2 = 3" by (simp add: ao_example2_def)
  note t = rescaled_form_consistency[where sbt_c = example_sbt_c and ao_log_new = example_ao_log_new
      and f = example_routine and p = ao_example2 and sbt = "example_engine (jmx ao_example2)",
      OF wf_ao_example2 h, unfolded r]
  from t obtain p1 where p1: "ao_log_hartree_lap ao_example2 = Inr p1"
      "psi_log_rl p1 ! 1 ! 1 ! 2 = psi_log p1 ! 1 ! 1 ! 2 / 16"
    by blast
  from t example2_contracts obtain p2 where p2: "ao_log_hartree_sbt example_sbt_c ao_example2 = Inr p2"
      "psi_log_rl p2 ! 1 ! 1 ! 2 = psi_log p2 ! 1 ! 1 ! 2 / 16"
    by blast
  from t example2_contracts obtain p3 where
    p3: "ao_log_hartree_lap_libnao example_ao_log_new example_routine ao_example2 = Inr p3"
        "length (psi_log p3 ! 1 ! 1) = nr ao_example2"
    by blast
  from p3(2) have l: "(2::nat) < length (psi_log p3 ! 1 ! 1)" by (simp add: n)
  with t p3(1) have "psi_log_rl p3 ! 1 ! 1 ! 2 = psi_log p3 ! 1 ! 1 ! 2 / 16" by blast
  with p1 p2 p3(1) l wf_ao_example2 example2_contracts h show ?thesis by blast
qed



text \<open>
  Claim C7. In the store model, a call of any of the three solvers on a container whose
  arrays exist leaves every array that existed before the call as it was (so the radial
  functions, angular momenta, cutoffs and grids of the input), whether it returns or raises;
  and the potential set that it returns refers only to arrays that the call has allocated,
  none of them shared with the input. The direct quadrature and the transform solver copy the
  input with \<^verbatim>\<open>copy.deepcopy\<close>; the library-backed solver calls the copying constructor of
  the class, which is not part of the module, and for it the statement is that all the writes
  of the solver itself (the buffer of the compiled routine, the rescaled potentials, the
  cutoffs) go to the arrays of the constructed container or to arrays that \<^verbatim>\<open>np.require\<close>
  has allocated, so that the call is as fresh as the constructor is, and fresh when the
  constructor copies as \<^verbatim>\<open>copy.deepcopy\<close> does. On a typed, unaliased and
  well-formed input the direct quadrature and the transform solver do return, and the
  potential set that they return denotes the one that the value model computes.
\<close>

theorem fresh_output_input_unchanged:
  assumes valid: "list_all (\<lambda>a. a < length h) (refs ao)"
  shows "fresh_result ao h (ao_log_hartree_lap_st ao h) \<and>
         fresh_result ao h (ao_log_hartree_sbt_st sbt_c ao h) \<and>
         (fresh_result ao h (ao_log_new ao h) \<longrightarrow>
            fresh_result ao h (ao_log_hartree_lap_libnao_st ao_log_new meets f ao h)) \<and>
         fresh_result ao h (ao_log_hartree_lap_libnao_st deepcopy meets f ao h) \<and>
         (typed h ao \<and> unaliased ao \<and> wf_ao (abs_ao h ao) \<longrightarrow>
            (\<exists>pot h'. ao_log_hartree_lap_st ao h = (Inr pot, h') \<and>
               ao_log_hartree_lap (abs_ao h ao) = Inr (abs_ao h' pot))) \<and>
         (typed h ao \<and> unaliased ao \<and> wf_ao (abs_ao h ao) \<and> wf_pp (abs_ao h ao) \<and>
          wf_jmx (abs_ao h ao) \<and>
          sbt_c (rr (abs_ao h ao)) (pp (abs_ao h ao)) (jmx (abs_ao h ao)) = Inr sbt \<and>
          engine_contract sbt (nr (abs_ao h ao)) (jmx (abs_ao h ao)) \<longrightarrow>
            (\<exists>pot h'. ao_log_hartree_sbt_st sbt_c ao h = (Inr pot, h') \<and>
               ao_log_hartree_sbt sbt_c (abs_ao h ao) = Inr (abs_ao h' pot)))"
proof (intro conjI impI)
  show "fresh_result ao h (ao_log_hartree_lap_st ao h)"
    unfolding lap_st_body by (rule copy_then_body[OF valid]) (rule frame_lap_body)
  show "fresh_result ao h (ao_log_hartree_sbt_st sbt_c ao h)"
  proof (cases rule: read_float1_cases[of "o_rr ao" h])
    case (2 e)
    then show ?thesis by (simp add: sbt_st_body bind_st_def fresh_result_Inl)
  next
    case rs: (1 rs)
    show ?thesis
    proof (cases rule: read_float1_cases[of "o_pp ao" h])
      case (2 e)
      then show ?thesis using rs by (simp add: sbt_st_body bind_st_def fresh_result_Inl)
    next
      case ps: (1 ps)
      show ?thesis
      proof (cases "sbt_c rs ps (o_jmx ao)")
        case (Inl e)
        then show ?thesis
          using rs ps by (simp add: sbt_st_body bind_st_def lift_st_def fresh_result_Inl)
      next
        case (Inr sbt)
        have "ao_log_hartree_sbt_st sbt_c ao h =
                bind_st (deepcopy ao) (\<lambda>ao_pot.
                  bind_st (sbt_body_st sbt ao ao_pot) (\<lambda>_. lift_st (Inr ao_pot))) h"
          unfolding sbt_st_body using rs ps Inr by (simp add: bind_st_def lift_st_def)
        then show ?thesis
          using copy_then_body[OF valid, of "sbt_body_st sbt ao"] frame_sbt_body by simp
      qed
    qed
  qed
next
  assume "fresh_result ao h (ao_log_new ao h)"
  with valid show "fresh_result ao h (ao_log_hartree_lap_libnao_st ao_log_new meets f ao h)"
    by (rule libnao_st_fresh)
next
  show "fresh_result ao h (ao_log_hartree_lap_libnao_st deepcopy meets f ao h)"
    using valid deepcopy_fresh_result[OF valid] by (rule libnao_st_fresh)
next
  assume a: "typed h ao \<and> unaliased ao \<and> wf_ao (abs_ao h ao)"
  then have "ao_log_hartree_lap (abs_ao h ao) = Inr (lap_result (abs_ao h ao))"
    by (simp add: ao_log_hartree_lap_wf)
  from lap_st_refines[OF _ _ this] a
  show "\<exists>pot h'. ao_log_hartree_lap_st ao h = (Inr pot, h') \<and>
               ao_log_hartree_lap (abs_ao h ao) = Inr (abs_ao h' pot)"
    using \<open>ao_log_hartree_lap (abs_ao h ao) = Inr (lap_result (abs_ao h ao))\<close> by metis
next
  assume a: "typed h ao \<and> unaliased ao \<and> wf_ao (abs_ao h ao) \<and> wf_pp (abs_ao h ao) \<and>
          wf_jmx (abs_ao h ao) \<and>
          sbt_c (rr (abs_ao h ao)) (pp (abs_ao h ao)) (jmx (abs_ao h ao)) = Inr sbt \<and>
          engine_contract sbt (nr (abs_ao h ao)) (jmx (abs_ao h ao))"
  then have pl: "length (pp (abs_ao h ao)) = nr (abs_ao h ao)" by (simp add: wf_pp_def)
  have e: "ao_log_hartree_sbt sbt_c (abs_ao h ao) = Inr (sbt_result sbt (abs_ao h ao))"
    using ao_log_hartree_sbt_wf[where sbt_c = sbt_c and sbt = sbt and ao = "abs_ao h ao"] a pl
    by blast
  from sbt_st_refines[OF _ _ e] a
  show "\<exists>pot h'. ao_log_hartree_sbt_st sbt_c ao h = (Inr pot, h') \<and>
               ao_log_hartree_sbt sbt_c (abs_ao h ao) = Inr (abs_ao h' pot)"
    using e by metis
qed


text \<open>
  The store of eight arrays. The direct quadrature and the transform solver return a
  container of the addresses 8 to 15, the first eight arrays are as before, and the new array
  13 holds the potential. The library-backed solver, with \<^verbatim>\<open>copy.deepcopy\<close> for the constructor,
  a routine that leaves its buffer as it is and \<^verbatim>\<open>np.require\<close> copying the array 13, returns a
  container whose potential is the new array 16.
\<close>

theorem fresh_output_input_unchanged_witness:
  "list_all (\<lambda>a. a < length store_example) (refs obj_example) \<and>
   typed store_example obj_example \<and> unaliased obj_example \<and>
   wf_ao (abs_ao store_example obj_example) \<and> wf_pp (abs_ao store_example obj_example) \<and>
   wf_jmx (abs_ao store_example obj_example) \<and>
   example_sbt_c (rr (abs_ao store_example obj_example)) (pp (abs_ao store_example obj_example))
     (jmx (abs_ao store_example obj_example)) = Inr (example_engine 0) \<and>
   engine_contract (example_engine 0) (nr (abs_ao store_example obj_example))
     (jmx (abs_ao store_example obj_example)) \<and>
   fresh_result obj_example store_example (deepcopy obj_example store_example) \<and>
   fresh_result obj_example store_example (ao_log_hartree_lap_st obj_example store_example) \<and>
   fresh_result obj_example store_example
     (ao_log_hartree_sbt_st example_sbt_c obj_example store_example) \<and>
   fresh_result obj_example store_example
     (ao_log_hartree_lap_libnao_st deepcopy (\<lambda>a. a \<noteq> 13) example_routine obj_example store_example) \<and>
   refs obj_example = [0, 1, 2, 3, 4, 5, 6, 7] \<and>
   (\<exists>pot h'. ao_log_hartree_lap_st obj_example store_example = (Inr pot, h') \<and>
      refs pot = [8, 9, 10, 11, 12, 13, 14, 15] \<and> take 8 h' = store_example \<and>
      h' ! 13 = Float2 [[4 * pi * ln 2 * 5, 4 * pi * ln 2 * (9 / 2)]] \<and>
      ao_log_hartree_lap (abs_ao store_example obj_example) = Inr (abs_ao h' pot)) \<and>
   (\<exists>pot h'. ao_log_hartree_sbt_st example_sbt_c obj_example store_example = (Inr pot, h') \<and>
      refs pot = [8, 9, 10, 11, 12, 13, 14, 15] \<and> take 8 h' = store_example \<and>
      h' ! 13 = Float2 [[4 * pi, pi]] \<and>
      ao_log_hartree_sbt example_sbt_c (abs_ao store_example obj_example) = Inr (abs_ao h' pot)) \<and>
   (\<exists>pot h'. ao_log_hartree_lap_libnao_st deepcopy (\<lambda>a. a \<noteq> 13) example_routine obj_example
        store_example = (Inr pot, h') \<and>
      refs pot = [8, 9, 10, 11, 12, 16, 14, 15] \<and> take 8 h' = store_example \<and>
      h' ! 16 = Float2 [[1, 1]])"
proof -
  have v: "list_all (\<lambda>a. a < length store_example) (refs obj_example)"
    by (simp add: refs_def obj_example_def store_example_def)
  have l: "length store_example = 8" by (simp add: store_example_def)
  have n: "(store_example @ xs) ! 13 = xs ! 5" "(store_example @ xs) ! 16 = xs ! 8" for xs :: store
    by (simp_all add: nth_append l)
  have d: "fresh_result obj_example store_example (deepcopy obj_example store_example)"
    unfolding deepcopy_example
    by (simp add: fresh_result_def refs_def l) (simp add: obj_example_def)
  note t = fresh_output_input_unchanged[OF v, where sbt_c = example_sbt_c and sbt = "example_engine 0"
      and ao_log_new = deepcopy and meets = "\<lambda>a. a \<noteq> 13" and f = example_routine]
  note w = store_example_wf
  have j: "engine_contract (example_engine 0) (nr (abs_ao store_example obj_example))
     (jmx (abs_ao store_example obj_example))"
    using w(7) by (simp only: w(8))
  from t w(1-3)
  obtain pot h' where a1: "ao_log_hartree_lap_st obj_example store_example = (Inr pot, h')"
    "ao_log_hartree_lap (abs_ao store_example obj_example) = Inr (abs_ao h' pot)"
    by blast
  from a1(1) have a2: "refs pot = [8, 9, 10, 11, 12, 13, 14, 15]" "take 8 h' = store_example"
      "h' ! 13 = Float2 [[4 * pi * ln 2 * 5, 4 * pi * ln 2 * (9 / 2)]]"
    unfolding lap_example by (auto simp: refs_def l n)
  from t w(1-6) j
  obtain pot2 h2 where b1: "ao_log_hartree_sbt_st example_sbt_c obj_example store_example = (Inr pot2, h2)"
    "ao_log_hartree_sbt example_sbt_c (abs_ao store_example obj_example) = Inr (abs_ao h2 pot2)"
    by blast
  from b1(1) have b2: "refs pot2 = [8, 9, 10, 11, 12, 13, 14, 15]" "take 8 h2 = store_example"
      "h2 ! 13 = Float2 [[4 * pi, pi]]"
    unfolding sbt_example by (auto simp: refs_def l n)
  obtain pot3 h3 where c1: "ao_log_hartree_lap_libnao_st deepcopy (\<lambda>a. a \<noteq> 13) example_routine
      obj_example store_example = (Inr pot3, h3)"
    using libnao_example by blast
  from c1 have c2: "refs pot3 = [8, 9, 10, 11, 12, 16, 14, 15]" "take 8 h3 = store_example"
      "h3 ! 16 = Float2 [[1, 1]]"
    unfolding libnao_example by (auto simp: refs_def l n)
  from t d have c3: "fresh_result obj_example store_example
     (ao_log_hartree_lap_libnao_st deepcopy (\<lambda>a. a \<noteq> 13) example_routine obj_example store_example)"
    by blast
  have r: "refs obj_example = [0, 1, 2, 3, 4, 5, 6, 7]" by (simp add: refs_def obj_example_def)
  from v t r a1 a2 b1 b2 c1 c2 c3 d w(1-6) j show ?thesis by blast
qed

text \<open>
  Claim C8, amended. In exact arithmetic, on a strictly positive grid, the term that the
  double loop adds for \<open>irp = ir\<close> is \<open>f[ir] \<cdot> rr[ir]\<^sup>3 / rr[ir]\<close>, and the sum that the loop
  leaves in \<open>vff[ir]\<close> is this diagonal term plus the terms of all the other indices: the
  diagonal is treated like any other index. In \<^verbatim>\<open>float64\<close> arithmetic the divisor \<open>rrg\<close> of the
  pair \<open>(ir, irp)\<close> is zero exactly when \<open>max(rr[ir], rr[irp])\<^sup>a\<^sup>m\<^sup>+\<^sup>1\<close> is at most \<open>2\<^sup>-\<^sup>1\<^sup>0\<^sup>7\<^sup>5\<close>, where
  it underflows; and when every grid point lies between \<open>2\<^sup>-\<^sup>B\<close> and \<open>2\<^sup>B\<close>, the angular momentum
  is not negative, \<open>ffrr3[irp]\<close> is at most \<open>2\<^sup>C\<close> in absolute value and \<open>B (2 am + 1) + C\<close> is at
  most 1023, the divisor is not zero and the term is a finite number.
\<close>

theorem diagonal_term:
  assumes pos: "list_all (\<lambda>r. 0 < r) rs" and n: "length rs = n" "length f = n"
    and ir: "ir < n" and irp: "irp < n"
    and g: "ffrr3 = map2 (*) f (map (\<lambda>r. r ^ 3) rs)"
  shows "lap_term rs ffrr3 am ir ir = Inr (f ! ir * rs ! ir ^ 3 / rs ! ir) \<and>
         (\<exists>vff. lap_vff n rs ffrr3 am = Inr vff \<and>
            vff ! ir = f ! ir * rs ! ir ^ 3 / rs ! ir +
              (\<Sum>irp\<in>{..<n} - {ir}.
                 power_int (min (rs ! ir) (rs ! irp)) am / power_int (max (rs ! ir) (rs ! irp)) (am + 1)
                 * (f ! irp * rs ! irp ^ 3))) \<and>
         (f64_pow (py_max (Num (rs ! ir)) (Num (rs ! irp))) (am + 1) = Num 0 \<longleftrightarrow>
            max (rs ! ir) (rs ! irp) powi (am + 1) \<le> 2 powi (- 1075)) \<and>
         (0 \<le> am \<and> 0 \<le> B \<and> 0 \<le> C \<and> B * (2 * am + 1) + C \<le> 1023 \<and>
          list_all (\<lambda>r. 2 powi (- B) \<le> r \<and> r \<le> 2 powi B) rs \<and>
          length gs = n \<and> gs ! irp = Num c \<and> \<bar>c\<bar> \<le> 2 powi C \<longrightarrow>
            (\<exists>d t. f64_pow (py_max (Num (rs ! ir)) (Num (rs ! irp))) (am + 1) = Num d \<and> d \<noteq> 0 \<and>
                   lap_term_f64 (map Num rs) gs am ir irp = Inr (Num t)))"
proof (intro conjI impI)
  have r: "0 < rs ! ir" using pos n ir by (simp add: list_all_length)
  have rp: "0 < rs ! irp" using pos n irp by (simp add: list_all_length)
  have gl: "length ffrr3 = n" using g n by simp
  have gi: "\<And>i. i < n \<Longrightarrow> ffrr3 ! i = f ! i * rs ! i ^ 3" using g n by simp
  have k: "hartree_kernel rs am ir ir = 1 / rs ! ir"
  proof -
    have "power_int (rs ! ir) (am + 1) = power_int (rs ! ir) am * rs ! ir"
      using r by (simp add: power_int_add)
    moreover have "power_int (rs ! ir) am \<noteq> 0" using r by simp
    ultimately show ?thesis using r by (simp add: hartree_kernel_def)
  qed
  have t: "lap_term rs ffrr3 am ir ir = Inr (hartree_kernel rs am ir ir * ffrr3 ! ir)"
    using n ir gl by (simp add: lap_term_Inr)
  show "lap_term rs ffrr3 am ir ir = Inr (f ! ir * rs ! ir ^ 3 / rs ! ir)"
    unfolding t k using gi[OF ir] by simp
  let ?t = "\<lambda>irp. hartree_kernel rs am ir irp * ffrr3 ! irp"
  have v: "lap_vff n rs ffrr3 am = Inr (map (\<lambda>ir. \<Sum>irp<n. hartree_kernel rs am ir irp * ffrr3 ! irp) [0..<n])"
    using n gl by (simp add: lap_vff_Inr)
  have "(\<Sum>irp<n. ?t irp) = ?t ir + (\<Sum>irp\<in>{..<n} - {ir}. ?t irp)"
    using ir by (simp add: sum.remove)
  also have "?t ir = f ! ir * rs ! ir ^ 3 / rs ! ir"
    unfolding k using gi[OF ir] by simp
  also have "(\<Sum>irp\<in>{..<n} - {ir}. ?t irp) =
     (\<Sum>irp\<in>{..<n} - {ir}.
                 power_int (min (rs ! ir) (rs ! irp)) am / power_int (max (rs ! ir) (rs ! irp)) (am + 1)
                 * (f ! irp * rs ! irp ^ 3))"
    by (rule sum.cong) (simp_all add: hartree_kernel_def gi)
  finally show "\<exists>vff. lap_vff n rs ffrr3 am = Inr vff \<and>
            vff ! ir = f ! ir * rs ! ir ^ 3 / rs ! ir +
              (\<Sum>irp\<in>{..<n} - {ir}.
                 power_int (min (rs ! ir) (rs ! irp)) am / power_int (max (rs ! ir) (rs ! irp)) (am + 1)
                 * (f ! irp * rs ! irp ^ 3))"
    using v ir by simp
  show "f64_pow (py_max (Num (rs ! ir)) (Num (rs ! irp))) (am + 1) = Num 0 \<longleftrightarrow>
            max (rs ! ir) (rs ! irp) powi (am + 1) \<le> 2 powi (- 1075)"
    using r rp by (rule divisor_zero_iff)
  assume a: "0 \<le> am \<and> 0 \<le> B \<and> 0 \<le> C \<and> B * (2 * am + 1) + C \<le> 1023 \<and>
          list_all (\<lambda>r. 2 powi (- B) \<le> r \<and> r \<le> 2 powi B) rs \<and>
          length gs = n \<and> gs ! irp = Num c \<and> \<bar>c\<bar> \<le> 2 powi C"
  then have b: "2 powi (- B) \<le> rs ! ir" "rs ! ir \<le> 2 powi B"
    "2 powi (- B) \<le> rs ! irp" "rs ! irp \<le> 2 powi B"
    using n ir irp by (simp_all add: list_all_length)
  from a have a': "0 \<le> am" "0 \<le> B" "0 \<le> C" "B * (2 * am + 1) + C \<le> 1023" "\<bar>c\<bar> \<le> 2 powi C"
    by simp_all
  from term_finite[OF b a'] obtain d t where
    dt: "f64_pow (py_max (Num (rs ! ir)) (Num (rs ! irp))) (am + 1) = Num d" "d \<noteq> 0"
      "f64_mul (f64_div (f64_pow (py_min (Num (rs ! ir)) (Num (rs ! irp))) am)
                            (f64_pow (py_max (Num (rs ! ir)) (Num (rs ! irp))) (am + 1))) (Num c) = Num t"
    by blast
  have "lap_term_f64 (map Num rs) gs am ir irp = Inr (Num t)"
    using lap_term_f64_Num[of ir rs irp gs am] n ir irp a dt(3) by simp
  with dt(1,2) show "\<exists>d t. f64_pow (py_max (Num (rs ! ir)) (Num (rs ! irp))) (am + 1) = Num d \<and> d \<noteq> 0 \<and>
                   lap_term_f64 (map Num rs) gs am ir irp = Inr (Num t)"
    by blast
qed

text \<open>
  The grid \<open>1, 2, 4, 8\<close> with \<open>f = 1\<close> and angular momentum 1, at the index 2: the diagonal
  term is 16, the divisor is not zero and the term is finite in \<^verbatim>\<open>float64\<close>, with \<open>B = 3\<close> and
  \<open>C = 9\<close>.
\<close>

theorem diagonal_term_witness:
  "list_all (\<lambda>r. 0 < r) [1, 2, 4, 8 :: real] \<and> length [1, 2, 4, 8 :: real] = 4 \<and>
   length [1, 1, 1, 1 :: real] = 4 \<and> (2 :: nat) < 4 \<and>
   (0::int) \<le> 1 \<and> (0::int) \<le> 3 \<and> (0::int) \<le> 9 \<and> (3::int) * (2 * 1 + 1) + 9 \<le> 1023 \<and>
   list_all (\<lambda>r. 2 powi (- 3) \<le> r \<and> r \<le> 2 powi 3) [1, 2, 4, 8 :: real] \<and>
   length [Num 1, Num 8, Num 64, Num 512] = 4 \<and>
   [Num 1, Num 8, Num 64, Num 512] ! 2 = Num 64 \<and> \<bar>64 :: real\<bar> \<le> 2 powi 9 \<and>
   lap_term [1, 2, 4, 8] [1, 8, 64, 512] 1 2 2 = Inr 16 \<and>
   (\<exists>vff. lap_vff 4 [1, 2, 4, 8] [1, 8, 64, 512] 1 = Inr vff \<and> vff ! 2 = 16 + (1 / 16 + 1 + 32)) \<and>
   f64_pow (py_max (Num 4) (Num 4)) (1 + 1) \<noteq> Num 0 \<and>
   (\<exists>t. lap_term_f64 [Num 1, Num 2, Num 4, Num 8] [Num 1, Num 8, Num 64, Num 512] 1 2 2 = Inr (Num t))"
proof -
  have g: "[1, 8, 64, 512 :: real] = map2 (*) [1, 1, 1, 1] (map (\<lambda>r. r ^ 3) [1, 2, 4, 8])"
    by simp
  have h: "list_all (\<lambda>r. 0 < r) [1, 2, 4, 8 :: real]" "length [1, 2, 4, 8 :: real] = 4"
    "length [1, 1, 1, 1 :: real] = 4" "(2 :: nat) < 4" "(2 :: nat) < 4"
    by simp_all
  have b: "(0::int) \<le> 1" "(0::int) \<le> 3" "(0::int) \<le> 9" "(3::int) * (2 * 1 + 1) + 9 \<le> 1023"
    "list_all (\<lambda>r. 2 powi (- 3) \<le> r \<and> r \<le> 2 powi 3) [1, 2, 4, 8 :: real]"
    "length [Num 1, Num 8, Num 64, Num 512] = 4"
    "[Num 1, Num 8, Num 64, Num 512] ! 2 = Num 64" "\<bar>64 :: real\<bar> \<le> 2 powi 9"
    by simp_all
  have s: "{..<4::nat} - {2} = {0, 1, 3}" by auto
  have e: "(\<Sum>irp\<in>{..<4::nat} - {2}.
                 power_int (min ([1, 2, 4, 8 :: real] ! 2) ([1, 2, 4, 8] ! irp)) 1 /
                 power_int (max ([1, 2, 4, 8] ! 2) ([1, 2, 4, 8] ! irp)) (1 + 1)
                 * ([1, 1, 1, 1] ! irp * [1, 2, 4, 8] ! irp ^ 3)) = 1 / 16 + 1 + 32"
    unfolding s by simp
  have m: "map Num [1, 2, 4, 8] = [Num 1, Num 2, Num 4, Num 8]" by simp
  have x: "\<not> max ([1, 2, 4, 8 :: real] ! 2) ([1, 2, 4, 8] ! 2) powi (1 + 1) \<le> 2 powi (- 1075)"
  proof -
    have "(2::real) powi (- 1075) < 2 powi 4" by (intro pw_strict) simp
    moreover have "max ([1, 2, 4, 8 :: real] ! 2) ([1, 2, 4, 8] ! 2) powi (1 + 1) = 2 powi 4" by simp
    ultimately show ?thesis by (simp only: not_le)
  qed
  note t = diagonal_term[OF h g, of 1 3 9 "[Num 1, Num 8, Num 64, Num 512]" 64, unfolded e m]
  from t have 1: "lap_term [1, 2, 4, 8] [1, 8, 64, 512] 1 2 2 = Inr 16"
    and 2: "\<exists>vff. lap_vff 4 [1, 2, 4, 8] [1, 8, 64, 512] 1 = Inr vff \<and> vff ! 2 = 16 + (1 / 16 + 1 + 32)"
    by simp_all
  from t x have 3: "f64_pow (py_max (Num ([1, 2, 4, 8] ! 2)) (Num ([1, 2, 4, 8] ! 2))) (1 + 1) \<noteq> Num 0"
    by blast
  then have 3: "f64_pow (py_max (Num 4) (Num 4)) (1 + 1) \<noteq> Num 0" by simp
  from t b have 4: "\<exists>t. lap_term_f64 [Num 1, Num 2, Num 4, Num 8] [Num 1, Num 8, Num 64, Num 512] 1 2 2 = Inr (Num t)"
    by blast
  from h b 1 2 3 4 show ?thesis by blast
qed

text \<open>
  Where the claim fails. On the grid \<open>2\<^sup>-\<^sup>6\<^sup>0\<^sup>0, 1\<close> of positive \<^verbatim>\<open>float64\<close> numbers, with
  \<open>f = 1\<close> and angular momentum 1, the square of the first grid point underflows: the divisor
  \<open>rrg\<close> of the diagonal term at the index 0 is zero, the quotient \<open>rrl/rrg\<close> is infinite,
  \<open>ffrr3[0]\<close> is zero, and the term is \<^verbatim>\<open>nan\<close>.
\<close>

theorem diagonal_term_underflow:
  "(0::real) < 2 powi (- 600) \<and> (2::real) powi (- 600) < 1 \<and>
   round64 (2 powi (- 600)) = Num (2 powi (- 600)) \<and>
   f64_mul (Num 1) (f64_pow (Num (2 powi (- 600))) 3) = Num 0 \<and>
   f64_mul (Num 1) (f64_pow (Num 1) 3) = Num 1 \<and>
   f64_pow (py_max (Num (2 powi (- 600))) (Num (2 powi (- 600)))) (1 + 1) = Num 0 \<and>
   f64_div (f64_pow (py_min (Num (2 powi (- 600))) (Num (2 powi (- 600)))) 1)
           (f64_pow (py_max (Num (2 powi (- 600))) (Num (2 powi (- 600)))) (1 + 1)) = PInf \<and>
   lap_term_f64 [Num (2 powi (- 600)), Num 1] [Num 0, Num 1] 1 0 0 = Inr NaN"
proof -
  define x :: real where "x = 2 powi (- 600)"
  have xp: "0 < x" by (simp add: x_def)
  have x1: "x < 1" using pw_strict[of "- 600" 0] by (simp add: x_def)
  have rx: "round64 x = Num x" unfolding x_def by (rule round64_pow2) simp_all
  have z: "round64 (x powi n) = Num 0" if "2 \<le> n" for n :: int
  proof -
    have "x powi n = 2 powi (- 600 * n)" unfolding x_def by (rule power_int_mult[symmetric])
    also have "\<dots> \<le> 2 powi (- 1075)" using that by (intro pw_mono) simp
    finally have "x powi n \<le> 2 powi (- 1075)" .
    moreover have "0 \<le> x powi n" using xp by simp
    ultimately show ?thesis using round64_zero_iff by blast
  qed
  have r0: "round64 0 = Num 0" using round64_zero_iff[of 0] by simp
  have r1: "round64 1 = Num 1" using round64_pow2[of 0] by simp
  have p1: "f64_pow (Num x) 1 = Num x" using rx by (simp add: f64_pow_pos[OF xp])
  have p2: "f64_pow (Num x) 2 = Num 0" using z[of 2] by (simp add: f64_pow_pos[OF xp])
  have p3: "f64_pow (Num x) 3 = Num 0" using z[of 3] by (simp add: f64_pow_pos[OF xp])
  have q3: "f64_pow (Num 1) 3 = Num 1" using r1 by (simp add: f64_pow_def)
  have "0 < x \<and> x < 1 \<and> round64 x = Num x \<and>
   f64_mul (Num 1) (f64_pow (Num x) 3) = Num 0 \<and>
   f64_mul (Num 1) (f64_pow (Num 1) 3) = Num 1 \<and>
   f64_pow (py_max (Num x) (Num x)) (1 + 1) = Num 0 \<and>
   f64_div (f64_pow (py_min (Num x) (Num x)) 1) (f64_pow (py_max (Num x) (Num x)) (1 + 1)) = PInf \<and>
   lap_term_f64 [Num x, Num 1] [Num 0, Num 1] 1 0 0 = Inr NaN"
    using xp x1 rx by (simp add: lap_term_f64_def Let_def p1 p2 p3 q3 r0 r1 inf_of_def)
  then show ?thesis unfolding x_def .
qed

end
